theory Spec2Isabelle
  imports Complex_Main
begin

section \<open>Tolerance table (near.h)\<close>

text \<open>
  The precision tags of the client. The C++ variable template \<open>error_tolerance<T>\<close> is
  indexed by the element type; the model indexes it by the tag of that type.
\<close>

datatype precision = Half | Bfloat16 | SingleReal | DoubleReal | SingleComplex | DoubleComplex

text \<open>
  \<^verbatim>\<open>template <class T> constexpr double error_tolerance = 0.0;\<close>
  \<^verbatim>\<open>template <> constexpr double error_tolerance<hipblasHalf> = 0.000061035;\<close>
  The decimal literal is modelled by the rational number it denotes.
\<close>

definition error_tolerance :: "precision \<Rightarrow> real" where
  "error_tolerance p = (if p = Half then 61035 / 1000000000 else 0)"

section \<open>Dense-to-packed conversion\<close>

text \<open>
  Buffers reached through a raw pointer are stores from element offsets to values. The
  loops \<open>for(i = 0; i < n; i++)\<close> are folds over \<open>[0..<n]\<close>; a dimension that is not
  positive runs no iteration, as \<open>n = 0\<close> does. The pair threaded through the loops
  is the packed buffer and the running \<open>index\<close>.
\<close>

type_synonym 'a buf = "nat \<Rightarrow> 'a"

text \<open>\<^verbatim>\<open>AP[index++] = v\<close>\<close>

definition emit :: "('c \<Rightarrow> 'a) \<Rightarrow> 'c \<Rightarrow> 'a buf \<times> nat \<Rightarrow> 'a buf \<times> nat" where
  "emit f x = (\<lambda>(AP, index). (AP(index := f x), index + 1))"

text \<open>
  \<^verbatim>\<open>
  inline void regular_to_packed(bool upper, const T* A, T* AP, int64_t n)
  {
      int64_t index = 0;
      if(upper)
          for(int64_t i = 0; i < n; i++)
              for(int64_t j = 0; j <= i; j++)
                  AP[index++] = A[j + i * n];
      else
          for(int64_t i = 0; i < n; i++)
              for(int64_t j = i; j < n; j++)
                  AP[index++] = A[j + i * n];
  }
  \<close>
  The result is the packed buffer together with the final value of \<open>index\<close>.
\<close>

definition regular_to_packed_run :: "bool \<Rightarrow> 'a buf \<Rightarrow> 'a buf \<Rightarrow> nat \<Rightarrow> 'a buf \<times> nat" where
  "regular_to_packed_run upper A AP n =
     (if upper
      then fold (\<lambda>i. fold (emit (\<lambda>j. A (j + i * n))) [0..<i + 1]) [0..<n] (AP, 0)
      else fold (\<lambda>i. fold (emit (\<lambda>j. A (j + i * n))) [i..<n]) [0..<n] (AP, 0))"

definition regular_to_packed :: "bool \<Rightarrow> 'a buf \<Rightarrow> 'a buf \<Rightarrow> nat \<Rightarrow> 'a buf" where
  "regular_to_packed upper A AP n = fst (regular_to_packed_run upper A AP n)"

text \<open>
  Column-major dense storage with leading dimension \<open>n\<close>: the element in row \<open>r\<close> and
  column \<open>c\<close> is \<open>A (r + c * n)\<close>. The three listings below are the orders the
  specification speaks of.
\<close>

definition upper_by_columns :: "'a buf \<Rightarrow> nat \<Rightarrow> 'a list" where
  "upper_by_columns A n = concat (map (\<lambda>c. map (\<lambda>r. A (r + c * n)) [0..<c + 1]) [0..<n])"

definition lower_by_columns :: "'a buf \<Rightarrow> nat \<Rightarrow> 'a list" where
  "lower_by_columns A n = concat (map (\<lambda>c. map (\<lambda>r. A (r + c * n)) [c..<n]) [0..<n])"

definition lower_by_rows :: "'a buf \<Rightarrow> nat \<Rightarrow> 'a list" where
  "lower_by_rows A n = concat (map (\<lambda>r. map (\<lambda>c. A (r + c * n)) [0..<r + 1]) [0..<n])"

text \<open>
  Standard packed-triangular addressing of a column-major matrix: the offset of the
  element in row \<open>r\<close>, column \<open>c\<close> of the stored triangle.
\<close>

definition packed_index :: "bool \<Rightarrow> nat \<Rightarrow> nat \<Rightarrow> nat \<Rightarrow> nat" where
  "packed_index upper n r c =
     (if upper then r + c * (c + 1) div 2 else (r - c) + c * (2 * n - c + 1) div 2)"

text \<open>
  Modelled from the spec: the inverse unpack of the round-trip property is not part of
  the sources. It places every packed element back at its triangle coordinate, reading
  the packed buffer through the standard addressing above, and leaves the rest of the
  dense buffer \<open>B\<close> as it is.
\<close>

definition packed_to_regular :: "bool \<Rightarrow> 'a buf \<Rightarrow> 'a buf \<Rightarrow> nat \<Rightarrow> 'a buf" where
  "packed_to_regular upper AP B n =
     fold (\<lambda>c. fold (\<lambda>r B'. B'(r + c * n := AP (packed_index upper n r c)))
                     (if upper then [0..<c + 1] else [c..<n]))
          [0..<n] B"

text \<open>
  Auxiliary notions for the proofs about packed storage: the triangular numbers, the
  offset of column \<open>c\<close> in lower packed storage, and the cells \<open>(column, row)\<close> of
  the two triangles in the order in which the loops visit them.
\<close>

definition tri :: "nat \<Rightarrow> nat" where
  "tri c = c * (c + 1) div 2"

definition low_off :: "nat \<Rightarrow> nat \<Rightarrow> nat" where
  "low_off n c = c * (2 * n - c + 1) div 2"

definition ucells :: "nat \<Rightarrow> (nat \<times> nat) list" where
  "ucells n = concat (map (\<lambda>c. map (Pair c) [0..<c + 1]) [0..<n])"

definition lcells :: "nat \<Rightarrow> nat \<Rightarrow> (nat \<times> nat) list" where
  "lcells n m = concat (map (\<lambda>c. map (Pair c) [c..<n]) [0..<m])"

section \<open>Test drivers and bad-argument suites\<close>

text \<open>
  The status codes of the dispatch interface, the enumeration constants that the tests
  pass (a C cast moves a constant of one enumeration into an argument of another, so one
  type holds them all), the pointer modes and the four calling conventions of
  \<open>arg.api\<close>.
\<close>

datatype hipblasStatus =
    HIPBLAS_STATUS_SUCCESS
  | HIPBLAS_STATUS_NOT_INITIALIZED
  | HIPBLAS_STATUS_ALLOC_FAILED
  | HIPBLAS_STATUS_INVALID_VALUE
  | HIPBLAS_STATUS_INTERNAL_ERROR
  | HIPBLAS_STATUS_NOT_SUPPORTED
  | HIPBLAS_STATUS_ARCH_MISMATCH
  | HIPBLAS_STATUS_INVALID_ENUM


















subsection \<open>hemv\<close>




subsection \<open>geam\<close>




subsection \<open>syrk\_strided\_batched\<close>




subsection \<open>Concrete test cases\<close>










section \<open>Vector initializers\<close>

text \<open>
  A vector initializer receives a pointer \<open>x\<close> and writes through it. The model records
  the writes in program order, each as the element offset from the pointer that was
  passed in (negative offsets are addresses below it) and the value written, together
  with the state of the random generator, which is threaded through the calls of
  \<open>rand_gen\<close>. The \<open>omp parallel for\<close> of the sources is read as the sequential loop.

  \<open>int64_t\<close> products are taken modulo \<open>2^64\<close> and read as signed. In
  \<open>hipblas_init_template\<close> the loop index is a \<open>size_t\<close>, so \<open>i * inc\<close> is an unsigned
  product modulo \<open>2^64\<close>; added to a pointer in a 64-bit address space it reaches the
  same element as its signed reading.
\<close>

definition s64 :: "int \<Rightarrow> int" where
  "s64 v = (v + 2 ^ 63) mod 2 ^ 64 - 2 ^ 63"

text \<open>\<^verbatim>\<open>x[p] = f(rand_gen())\<close>: one value is drawn and \<open>f\<close> of it is written at offset \<open>p\<close>.\<close>

definition write_next ::
    "('s \<Rightarrow> 'a \<times> 's) \<Rightarrow> ('a \<Rightarrow> 'a) \<Rightarrow> int \<Rightarrow> (int \<times> 'a) list \<times> 's \<Rightarrow> (int \<times> 'a) list \<times> 's" where
  "write_next rand_gen f p = (\<lambda>(ws, s). let (v, s') = rand_gen s in (ws @ [(p, f v)], s'))"

text \<open>
  \<^verbatim>\<open>
  void hipblas_init_vector(T rand_gen(), T* x, int64_t N, int64_t incx)
  {
      if(incx < 0)
          x -= (N - 1) * incx;
      for(int64_t j = 0; j < N; ++j)
          x[j * incx] = rand_gen();
  }
  \<close>
\<close>

definition hipblas_init_vector ::
    "('s \<Rightarrow> 'a \<times> 's) \<Rightarrow> int \<Rightarrow> int \<Rightarrow> 's \<Rightarrow> (int \<times> 'a) list \<times> 's" where
  "hipblas_init_vector rand_gen N incx s =
     (let x = (if incx < 0 then 0 - s64 ((N - 1) * incx) else 0)
      in fold (\<lambda>j. write_next rand_gen id (x + s64 (j * incx))) [0..N - 1] ([], s))"

text \<open>
  \<^verbatim>\<open>
  void hipblas_init_vector_alternating_sign(T rand_gen(), T* x, int64_t N, int64_t incx)
  {
      if(incx < 0)
          x -= (N - 1) * incx;
      for(int64_t j = 0; j < N; ++j)
      {
          auto value  = rand_gen();
          x[j * incx] = j & 1 ? T(value) : T(hipblas_negate(value));
      }
  }
  \<close>
  \<open>hipblas_negate\<close> is not part of the sources and is a parameter.
\<close>

definition hipblas_init_vector_alternating_sign ::
    "('a \<Rightarrow> 'a) \<Rightarrow> ('s \<Rightarrow> 'a \<times> 's) \<Rightarrow> int \<Rightarrow> int \<Rightarrow> 's \<Rightarrow> (int \<times> 'a) list \<times> 's" where
  "hipblas_init_vector_alternating_sign hipblas_negate rand_gen N incx s =
     (let x = (if incx < 0 then 0 - s64 ((N - 1) * incx) else 0)
      in fold (\<lambda>j. write_next rand_gen (if j mod 2 = 1 then id else hipblas_negate)
                       (x + s64 (j * incx)))
           [0..N - 1] ([], s))"

text \<open>
  \<^verbatim>\<open>
  void hipblas_init_template(U& that, T rand_gen(), bool seedReset, bool alternating_sign = false)
  {
      if(seedReset)
          hipblas_seedrand();
      for(int batch_index = 0; batch_index < that.batch_count(); ++batch_index)
      {
          auto*   batched_data = that[batch_index];
          int64_t inc          = that.inc();
          auto    n            = that.n();
          if(inc < 0)
              batched_data -= (n - 1) * inc;
          if(alternating_sign)
              for(size_t i = 0; i < n; i++)
              {
                  auto value            = rand_gen();
                  batched_data[i * inc] = (i ^ 0) & 1 ? value : hipblas_negate(value);
              }
          else
              for(size_t i = 0; i < n; ++i)
                  batched_data[i * inc] = rand_gen();
      }
  }
  \<close>
  The container \<open>that\<close> is given by its \<open>batch_count()\<close>, \<open>inc()\<close> and \<open>n()\<close>;
  \<open>hipblas_seedrand\<close> sets the generator to the state \<open>seed\<close>. First the body of the
  loop for one batch, with offsets from \<open>that[batch_index]\<close>; then the whole function,
  which returns one list of writes for each batch.
\<close>

definition hipblas_init_template_batch ::
    "('a \<Rightarrow> 'a) \<Rightarrow> int \<Rightarrow> int \<Rightarrow> ('s \<Rightarrow> 'a \<times> 's) \<Rightarrow> bool \<Rightarrow> 's \<Rightarrow> (int \<times> 'a) list \<times> 's" where
  "hipblas_init_template_batch hipblas_negate inc n rand_gen alternating_sign s =
     (let batched_data = (if inc < 0 then 0 - s64 ((n - 1) * inc) else 0)
      in if alternating_sign
         then fold (\<lambda>i. write_next rand_gen (if i mod 2 = 1 then id else hipblas_negate)
                          (batched_data + s64 (i * inc)))
                [0..n - 1] ([], s)
         else fold (\<lambda>i. write_next rand_gen id (batched_data + s64 (i * inc)))
                [0..n - 1] ([], s))"

definition hipblas_init_template ::
    "('a \<Rightarrow> 'a) \<Rightarrow> 's \<Rightarrow> int \<Rightarrow> int \<Rightarrow> int \<Rightarrow> ('s \<Rightarrow> 'a \<times> 's) \<Rightarrow> bool \<Rightarrow> bool \<Rightarrow> 's
      \<Rightarrow> (int \<times> 'a) list list \<times> 's" where
  "hipblas_init_template hipblas_negate seed batch_count inc n rand_gen seedReset alternating_sign s =
     fold (\<lambda>batch_index (logs, s').
             let (ws, s'') = hipblas_init_template_batch hipblas_negate inc n rand_gen
                               alternating_sign s'
             in (logs @ [ws], s''))
       [0..batch_count - 1] ([], if seedReset then seed else s)"

text \<open>
  The offsets that a traversal of \<open>N\<close> elements with increment \<open>inc\<close> is expected to
  write, in order: \<open>j * inc\<close> for a positive increment, \<open>(N - 1 - j) * |inc|\<close> for a
  negative one.
\<close>

definition vector_offsets :: "int \<Rightarrow> int \<Rightarrow> int list" where
  "vector_offsets N inc =
     map (\<lambda>j. if inc < 0 then (N - 1 - j) * \<bar>inc\<bar> else j * inc) [0..N - 1]"

text \<open>A generator for the examples: it counts upwards.\<close>

definition counter_gen :: "int \<Rightarrow> int \<times> int" where
  "counter_gen s = (s, s + 1)"

section \<open>Dense-to-banded conversion\<close>

text \<open>
  The banded buffer \<open>AB\<close> and the dense matrix \<open>A\<close> are stores indexed by the element
  offset from their pointers (an integer, as the loop variables of the source are
  \<open>int64_t\<close>); the banded buffer is threaded through the loops together with the
  state of the random generator. A loop \<open>for(i = lo; i <= hi; i++)\<close> is a fold over
  \<open>[lo..hi]\<close>.
\<close>

type_synonym ('a, 's) host = "(int \<Rightarrow> 'a) \<times> 's"

text \<open>\<^verbatim>\<open>A[p] = random_generator<T>()\<close>\<close>

definition put :: "('s \<Rightarrow> 'a \<times> 's) \<Rightarrow> 'i \<Rightarrow> ('i \<Rightarrow> 'a) \<times> 's \<Rightarrow> ('i \<Rightarrow> 'a) \<times> 's" where
  "put random_generator p = (\<lambda>(A, s). let (v, s') = random_generator s in (A(p := v), s'))"

text \<open>
  \<^verbatim>\<open>
  void hipblas_init(T* A, int64_t M, int64_t N, int64_t lda,
                    hipblasStride stride = 0, int64_t batch_count = 1)
  {
      for(int64_t b = 0; b < batch_count; b++)
          for(int64_t i = 0; i < M; ++i)
              for(int64_t j = 0; j < N; ++j)
                  A[i + j * lda + b * stride] = random_generator<T>();
  }
  \<close>
  The pointer \<open>A\<close> is an offset into the store. \<open>random_generator\<close> is not part of the
  sources and is a parameter.
\<close>

definition hipblas_init ::
    "('s \<Rightarrow> 'a \<times> 's) \<Rightarrow> int \<Rightarrow> int \<Rightarrow> int \<Rightarrow> int \<Rightarrow> int \<Rightarrow> int \<Rightarrow> ('a, 's) host \<Rightarrow> ('a, 's) host" where
  "hipblas_init random_generator A M N lda stride batch_count =
     fold (\<lambda>b. fold (\<lambda>i. fold (\<lambda>j. put random_generator (A + (i + j * lda + b * stride)))
                               [0..N - 1])
                     [0..M - 1])
          [0..batch_count - 1]"


text \<open>
  \<^verbatim>\<open>
  void regular_to_banded(bool upper, const T* A, int64_t lda, T* AB, int64_t ldab,
                         int64_t n, int64_t k)
  {
      for(int64_t j = 0; j < n; j++)
      {
          int64_t min1 = upper ? std::max(int64_t(0), j - k) : j;
          int64_t max1 = upper ? j : std::min(n - 1, j + k);
          int64_t m    = upper ? k - j : -j;
          for(int64_t i = min1; i <= max1; i++)
              AB[j * ldab + (m + i)] = A[j * lda + i];
          min1 = upper ? k + 1 : std::min(k + 1, n - j);
          max1 = ldab - 1;
          for(int64_t i = min1; i <= max1; i++)
              hipblas_init<T>(AB + j * ldab + i, 1, 1, 1);
          if(upper)
              for(int64_t i = 0; i < m; i++)
                  hipblas_init<T>(AB + j * ldab + i, 1, 1, 1);
      }
  }
  \<close>
  The two kinds of inner loop are named: \<open>copy_band\<close> is the loop that moves the band of
  column \<open>j\<close>, \<open>fill_random\<close> a loop of calls of \<open>hipblas_init\<close> on the rows \<open>lo..hi\<close>
  of column \<open>j\<close> of the banded buffer. \<open>banded_column\<close> is the body of the outer loop.
\<close>

definition copy_band ::
    "(int \<Rightarrow> 'a) \<Rightarrow> int \<Rightarrow> int \<Rightarrow> int \<Rightarrow> int \<Rightarrow> int \<Rightarrow> int \<Rightarrow> ('a, 's) host \<Rightarrow> ('a, 's) host" where
  "copy_band A lda ldab j m min1 max1 =
     fold (\<lambda>i (AB, s). (AB(j * ldab + (m + i) := A (j * lda + i)), s)) [min1..max1]"

definition fill_random ::
    "('s \<Rightarrow> 'a \<times> 's) \<Rightarrow> int \<Rightarrow> int \<Rightarrow> int \<Rightarrow> int \<Rightarrow> ('a, 's) host \<Rightarrow> ('a, 's) host" where
  "fill_random random_generator ldab j lo hi =
     fold (\<lambda>i. hipblas_init random_generator (j * ldab + i) 1 1 1 0 1) [lo..hi]"

definition banded_column ::
    "('s \<Rightarrow> 'a \<times> 's) \<Rightarrow> bool \<Rightarrow> (int \<Rightarrow> 'a) \<Rightarrow> int \<Rightarrow> int \<Rightarrow> int \<Rightarrow> int \<Rightarrow> int
      \<Rightarrow> ('a, 's) host \<Rightarrow> ('a, 's) host" where
  "banded_column random_generator upper A lda ldab n k j st =
     (let min1 = (if upper then max 0 (j - k) else j);
          max1 = (if upper then j else min (n - 1) (j + k));
          m = (if upper then k - j else - j);
          st1 = copy_band A lda ldab j m min1 max1 st;
          min1' = (if upper then k + 1 else min (k + 1) (n - j));
          max1' = ldab - 1;
          st2 = fill_random random_generator ldab j min1' max1' st1
      in if upper then fill_random random_generator ldab j 0 (m - 1) st2 else st2)"

definition regular_to_banded ::
    "('s \<Rightarrow> 'a \<times> 's) \<Rightarrow> bool \<Rightarrow> (int \<Rightarrow> 'a) \<Rightarrow> int \<Rightarrow> int \<Rightarrow> int \<Rightarrow> int
      \<Rightarrow> ('a, 's) host \<Rightarrow> ('a, 's) host" where
  "regular_to_banded random_generator upper A lda ldab n k =
     fold (banded_column random_generator upper A lda ldab n k) [0..n - 1]"


text \<open>A generator for the examples: it counts upwards from its state and skips zero.\<close>

definition nonzero_gen :: "nat \<Rightarrow> int \<times> nat" where
  "nonzero_gen s = (int s + 1, s + 1)"

section \<open>Matrix initializers\<close>

text \<open>
  The matrix initializers write through a pointer into host memory, which is a store
  from element offsets to values, threaded through the loops together with the state of
  the random generator (the \<open>omp parallel for\<close> of the sources is read as the sequential
  loop). A pointer is the offset of its target in the store. The loops run over
  \<open>size_t\<close>; the dimensions are natural numbers.

  The helpers \<open>hipblas_real\<close>, \<open>hipblas_conjugate\<close> and \<open>hipblas_abs\<close> are not part
  of the sources and are parameters of the functions that call them.
\<close>

datatype hipblas_matrix_type =
    hipblas_general_matrix
  | hipblas_hermitian_matrix
  | hipblas_symmetric_matrix
  | hipblas_triangular_matrix
  | hipblas_diagonally_dominant_triangular_matrix

type_synonym ('a, 's) hmem = "(nat \<Rightarrow> 'a) \<times> 's"

text \<open>
  The general branch:
  \<^verbatim>\<open>
  for(size_t j = 0; j < N; ++j)
      for(size_t i = 0; i < M; ++i)
          A[i + j * lda] = rand_gen();
  \<close>
\<close>

definition fill_general ::
    "('s \<Rightarrow> 'a \<times> 's) \<Rightarrow> nat \<Rightarrow> nat \<Rightarrow> nat \<Rightarrow> nat \<Rightarrow> ('a, 's) hmem \<Rightarrow> ('a, 's) hmem" where
  "fill_general rand_gen A M N lda =
     fold (\<lambda>j. fold (\<lambda>i. put rand_gen (A + (i + j * lda))) [0..<M]) [0..<N]"

text \<open>
  The hermitian branch:
  \<^verbatim>\<open>
  for(size_t i = 0; i < N; ++i)
      for(size_t j = 0; j <= i; ++j)
      {
          auto value = rand_gen();
          if(i == j)
              A[j + i * lda] = hipblas_real(value);
          else if(uplo == 'U')
          {
              A[j + i * lda] = value;
              A[i + j * lda] = T(0);
          }
          else if(uplo == 'L')
          {
              A[j + i * lda] = T(0);
              A[i + j * lda] = value;
          }
          else
          {
              A[j + i * lda] = value;
              A[i + j * lda] = hipblas_conjugate(value);
          }
      }
  \<close>
  \<open>hermitian_entry\<close> is the body of the inner loop.
\<close>

definition hermitian_entry ::
    "('a \<Rightarrow> 'a) \<Rightarrow> ('a \<Rightarrow> 'a) \<Rightarrow> ('s \<Rightarrow> 'a::zero \<times> 's) \<Rightarrow> char \<Rightarrow> nat \<Rightarrow> nat \<Rightarrow> nat \<Rightarrow> nat
      \<Rightarrow> ('a, 's) hmem \<Rightarrow> ('a, 's) hmem" where
  "hermitian_entry hipblas_real hipblas_conjugate rand_gen uplo A lda i j =
     (\<lambda>(mem, s).
        let (v, s') = rand_gen s
        in if i = j then (mem(A + (j + i * lda) := hipblas_real v), s')
           else if uplo = CHR ''U''
             then (mem(A + (j + i * lda) := v, A + (i + j * lda) := 0), s')
           else if uplo = CHR ''L''
             then (mem(A + (j + i * lda) := 0, A + (i + j * lda) := v), s')
           else (mem(A + (j + i * lda) := v, A + (i + j * lda) := hipblas_conjugate v), s'))"

definition fill_hermitian ::
    "('a \<Rightarrow> 'a) \<Rightarrow> ('a \<Rightarrow> 'a) \<Rightarrow> ('s \<Rightarrow> 'a::zero \<times> 's) \<Rightarrow> char \<Rightarrow> nat \<Rightarrow> nat \<Rightarrow> nat
      \<Rightarrow> ('a, 's) hmem \<Rightarrow> ('a, 's) hmem" where
  "fill_hermitian hipblas_real hipblas_conjugate rand_gen uplo A N lda =
     fold (\<lambda>i. fold (hermitian_entry hipblas_real hipblas_conjugate rand_gen uplo A lda i)
                  [0..<i + 1])
          [0..<N]"

text \<open>
  The symmetric branch is the hermitian one without \<open>hipblas_real\<close> and
  \<open>hipblas_conjugate\<close>:
  \<^verbatim>\<open>
          if(i == j)
              A[j + i * lda] = value;
          else if(uplo == 'U')
          { A[j + i * lda] = value; A[i + j * lda] = T(0); }
          else if(uplo == 'L')
          { A[j + i * lda] = T(0); A[i + j * lda] = value; }
          else
          { A[j + i * lda] = value; A[i + j * lda] = value; }
  \<close>
\<close>

definition symmetric_entry ::
    "('s \<Rightarrow> 'a::zero \<times> 's) \<Rightarrow> char \<Rightarrow> nat \<Rightarrow> nat \<Rightarrow> nat \<Rightarrow> nat \<Rightarrow> ('a, 's) hmem \<Rightarrow> ('a, 's) hmem" where
  "symmetric_entry rand_gen uplo A lda i j =
     (\<lambda>(mem, s).
        let (v, s') = rand_gen s
        in if i = j then (mem(A + (j + i * lda) := v), s')
           else if uplo = CHR ''U''
             then (mem(A + (j + i * lda) := v, A + (i + j * lda) := 0), s')
           else if uplo = CHR ''L''
             then (mem(A + (j + i * lda) := 0, A + (i + j * lda) := v), s')
           else (mem(A + (j + i * lda) := v, A + (i + j * lda) := v), s'))"

definition fill_symmetric ::
    "('s \<Rightarrow> 'a::zero \<times> 's) \<Rightarrow> char \<Rightarrow> nat \<Rightarrow> nat \<Rightarrow> nat \<Rightarrow> ('a, 's) hmem \<Rightarrow> ('a, 's) hmem" where
  "fill_symmetric rand_gen uplo A N lda =
     fold (\<lambda>i. fold (symmetric_entry rand_gen uplo A lda i) [0..<i + 1]) [0..<N]"

text \<open>
  The entry of a triangular matrix:
  \<^verbatim>\<open>
  auto value = uplo == 'U' ? (j >= i ? rand_gen() : T(0)) : (j <= i ? rand_gen() : T(0));
  A[p] = value;
  \<close>
\<close>

definition triangular_entry ::
    "('s \<Rightarrow> 'a::zero \<times> 's) \<Rightarrow> char \<Rightarrow> nat \<Rightarrow> nat \<Rightarrow> nat \<Rightarrow> ('a, 's) hmem \<Rightarrow> ('a, 's) hmem" where
  "triangular_entry rand_gen uplo p i j =
     (\<lambda>(mem, s).
        let (v, s') = (if uplo = CHR ''U''
                       then (if j \<ge> i then rand_gen s else (0, s))
                       else (if j \<le> i then rand_gen s else (0, s)))
        in (mem(p := v), s'))"

text \<open>
  The triangular branch of \<open>hipblas_init_matrix\<close>, which is also the first loop nest of
  the diagonally dominant branch of both functions:
  \<^verbatim>\<open>
  for(size_t j = 0; j < N; ++j)
      for(size_t i = 0; i < M; ++i)
      { auto value = ...; A[i + j * lda] = value; }
  \<close>
\<close>

definition fill_triangular ::
    "('s \<Rightarrow> 'a::zero \<times> 's) \<Rightarrow> char \<Rightarrow> nat \<Rightarrow> nat \<Rightarrow> nat \<Rightarrow> nat \<Rightarrow> ('a, 's) hmem \<Rightarrow> ('a, 's) hmem" where
  "fill_triangular rand_gen uplo A M N lda =
     fold (\<lambda>j. fold (\<lambda>i. triangular_entry rand_gen uplo (A + (i + j * lda)) i j) [0..<M])
          [0..<N]"

text \<open>
  The triangular branch of \<open>hipblas_fill_matrix_type\<close> runs over the rows first and
  adds the batch offset \<open>b * stride\<close> to the index, although \<open>A\<close> already points to the
  batch:
  \<^verbatim>\<open>
  for(size_t i = 0; i < M; ++i)
      for(size_t j = 0; j < N; ++j)
      { auto value = ...; A[i + j * lda + b * stride] = value; }
  \<close>
\<close>

definition fill_triangular_by_rows ::
    "('s \<Rightarrow> 'a::zero \<times> 's) \<Rightarrow> char \<Rightarrow> nat \<Rightarrow> nat \<Rightarrow> nat \<Rightarrow> nat \<Rightarrow> nat
      \<Rightarrow> ('a, 's) hmem \<Rightarrow> ('a, 's) hmem" where
  "fill_triangular_by_rows rand_gen uplo A M N lda offset =
     fold (\<lambda>i. fold (\<lambda>j. triangular_entry rand_gen uplo (A + (i + j * lda + offset)) i j) [0..<N])
          [0..<M]"

text \<open>
  The diagonally dominant branch, after its first loop nest. For \<open>uplo == 'U'\<close>:
  \<^verbatim>\<open>
  const T multiplier = T(1.01);
  for(size_t i = 0; i < N; i++)
  {
      T abs_sum_off_diagonal_row = T(0);
      T abs_sum_off_diagonal_col = T(0);
      for(size_t j = i + 1; j < N; j++)
          abs_sum_off_diagonal_row += hipblas_abs(A[i + j * lda]);
      for(size_t j = 0; j < i; j++)
          abs_sum_off_diagonal_col += hipblas_abs(A[j + i * lda]);
      A[i + i * lda] = (abs_sum_off_diagonal_row + abs_sum_off_diagonal_col) == T(0)
                           ? T(1)
                           : T((abs_sum_off_diagonal_row + abs_sum_off_diagonal_col) * multiplier);
  }
  \<close>
  and otherwise:
  \<^verbatim>\<open>
  for(size_t j = 0; j < N; j++)
  {
      ...
      for(size_t i = j + 1; i < N; i++)
          abs_sum_off_diagonal_col += hipblas_abs(A[i + j * lda]);
      for(size_t i = 0; i < j; i++)
          abs_sum_off_diagonal_row += hipblas_abs(A[j + i * lda]);
      A[j + j * lda] = ... as above ...;
  }
  \<close>
  The arithmetic of \<open>T\<close> is the exact arithmetic of a field; \<open>T(1.01)\<close> is \<open>101 / 100\<close>.
\<close>

definition multiplier :: "'a::field" where
  "multiplier = 101 / 100"

definition dominant_value :: "'a::field \<Rightarrow> 'a \<Rightarrow> 'a" where
  "dominant_value abs_sum_off_diagonal_row abs_sum_off_diagonal_col =
     (if abs_sum_off_diagonal_row + abs_sum_off_diagonal_col = 0 then 1
      else (abs_sum_off_diagonal_row + abs_sum_off_diagonal_col) * multiplier)"

definition dominant_entry_upper ::
    "('a \<Rightarrow> 'a) \<Rightarrow> nat \<Rightarrow> nat \<Rightarrow> nat \<Rightarrow> nat \<Rightarrow> ('a::field, 's) hmem \<Rightarrow> ('a, 's) hmem" where
  "dominant_entry_upper hipblas_abs A N lda i =
     (\<lambda>(mem, s).
        let abs_sum_off_diagonal_row =
              fold (\<lambda>j acc. acc + hipblas_abs (mem (A + (i + j * lda)))) [i + 1..<N] 0;
            abs_sum_off_diagonal_col =
              fold (\<lambda>j acc. acc + hipblas_abs (mem (A + (j + i * lda)))) [0..<i] 0
        in (mem(A + (i + i * lda) :=
              dominant_value abs_sum_off_diagonal_row abs_sum_off_diagonal_col), s))"

definition dominant_entry_lower ::
    "('a \<Rightarrow> 'a) \<Rightarrow> nat \<Rightarrow> nat \<Rightarrow> nat \<Rightarrow> nat \<Rightarrow> ('a::field, 's) hmem \<Rightarrow> ('a, 's) hmem" where
  "dominant_entry_lower hipblas_abs A N lda j =
     (\<lambda>(mem, s).
        let abs_sum_off_diagonal_col =
              fold (\<lambda>i acc. acc + hipblas_abs (mem (A + (i + j * lda)))) [j + 1..<N] 0;
            abs_sum_off_diagonal_row =
              fold (\<lambda>i acc. acc + hipblas_abs (mem (A + (j + i * lda)))) [0..<j] 0
        in (mem(A + (j + j * lda) :=
              dominant_value abs_sum_off_diagonal_row abs_sum_off_diagonal_col), s))"

definition fill_dominant ::
    "('a \<Rightarrow> 'a) \<Rightarrow> ('s \<Rightarrow> 'a::field \<times> 's) \<Rightarrow> char \<Rightarrow> nat \<Rightarrow> nat \<Rightarrow> nat \<Rightarrow> nat
      \<Rightarrow> ('a, 's) hmem \<Rightarrow> ('a, 's) hmem" where
  "fill_dominant hipblas_abs rand_gen uplo A M N lda st =
     (let st1 = fill_triangular rand_gen uplo A M N lda st
      in if uplo = CHR ''U''
         then fold (dominant_entry_upper hipblas_abs A N lda) [0..<N] st1
         else fold (dominant_entry_lower hipblas_abs A N lda) [0..<N] st1)"

text \<open>
  \<^verbatim>\<open>
  void hipblas_fill_matrix_type(hipblas_matrix_type matrix_type, const char uplo, T rand_gen(),
                                T* A_data, int64_t M, int64_t N, size_t lda,
                                hipblasStride stride = 0, int64_t batch_count = 1)
  {
      for(size_t b = 0; b < batch_count; b++)
      {
          T* A = A_data + b * stride;
          if(matrix_type == hipblas_general_matrix) ...
          else if(matrix_type == hipblas_hermitian_matrix) ...
          else if(matrix_type == hipblas_symmetric_matrix) ...
          else if(matrix_type == hipblas_triangular_matrix) ...
          else if(matrix_type == hipblas_diagonally_dominant_triangular_matrix) ...
          else assert(false);
      }
  }
  \<close>
\<close>

definition hipblas_fill_matrix_type ::
    "('a \<Rightarrow> 'a) \<Rightarrow> ('a \<Rightarrow> 'a) \<Rightarrow> ('a \<Rightarrow> 'a) \<Rightarrow> hipblas_matrix_type \<Rightarrow> char
      \<Rightarrow> ('s \<Rightarrow> 'a::field \<times> 's) \<Rightarrow> nat \<Rightarrow> nat \<Rightarrow> nat \<Rightarrow> nat \<Rightarrow> nat \<Rightarrow> nat
      \<Rightarrow> ('a, 's) hmem \<Rightarrow> ('a, 's) hmem" where
  "hipblas_fill_matrix_type hipblas_real hipblas_conjugate hipblas_abs matrix_type uplo rand_gen
       A_data M N lda stride batch_count =
     fold (\<lambda>b.
             let A = A_data + b * stride
             in case matrix_type of
                  hipblas_general_matrix \<Rightarrow> fill_general rand_gen A M N lda
                | hipblas_hermitian_matrix \<Rightarrow>
                    fill_hermitian hipblas_real hipblas_conjugate rand_gen uplo A N lda
                | hipblas_symmetric_matrix \<Rightarrow> fill_symmetric rand_gen uplo A N lda
                | hipblas_triangular_matrix \<Rightarrow>
                    fill_triangular_by_rows rand_gen uplo A M N lda (b * stride)
                | hipblas_diagonally_dominant_triangular_matrix \<Rightarrow>
                    fill_dominant hipblas_abs rand_gen uplo A M N lda)
          [0..<batch_count]"

text \<open>
  \<^verbatim>\<open>
  void hipblas_init_matrix(hipblas_matrix_type matrix_type, const char uplo, T rand_gen(), U& hA)
  {
      for(int64_t batch_index = 0; batch_index < hA.batch_count(); ++batch_index)
      {
          auto*   A   = hA[batch_index];
          int64_t M   = hA.m();
          int64_t N   = hA.n();
          int64_t lda = hA.lda();
          ... the same branches, the triangular one by columns ...
      }
  }
  \<close>
  The container \<open>hA\<close> is given by \<open>hA.batch_count()\<close>, the pointers \<open>hA[batch_index]\<close>
  and \<open>hA.m()\<close>, \<open>hA.n()\<close>, \<open>hA.lda()\<close>.
\<close>

definition hipblas_init_matrix ::
    "('a \<Rightarrow> 'a) \<Rightarrow> ('a \<Rightarrow> 'a) \<Rightarrow> ('a \<Rightarrow> 'a) \<Rightarrow> hipblas_matrix_type \<Rightarrow> char
      \<Rightarrow> ('s \<Rightarrow> 'a::field \<times> 's) \<Rightarrow> nat \<Rightarrow> (nat \<Rightarrow> nat) \<Rightarrow> nat \<Rightarrow> nat \<Rightarrow> nat
      \<Rightarrow> ('a, 's) hmem \<Rightarrow> ('a, 's) hmem" where
  "hipblas_init_matrix hipblas_real hipblas_conjugate hipblas_abs matrix_type uplo rand_gen
       hA_batch_count hA hA_m hA_n hA_lda =
     fold (\<lambda>batch_index.
             let A = hA batch_index; M = hA_m; N = hA_n; lda = hA_lda
             in case matrix_type of
                  hipblas_general_matrix \<Rightarrow> fill_general rand_gen A M N lda
                | hipblas_hermitian_matrix \<Rightarrow>
                    fill_hermitian hipblas_real hipblas_conjugate rand_gen uplo A N lda
                | hipblas_symmetric_matrix \<Rightarrow> fill_symmetric rand_gen uplo A N lda
                | hipblas_triangular_matrix \<Rightarrow> fill_triangular rand_gen uplo A M N lda
                | hipblas_diagonally_dominant_triangular_matrix \<Rightarrow>
                    fill_dominant hipblas_abs rand_gen uplo A M N lda)
          [0..<hA_batch_count]"

text \<open>
  Notions for stating what the initializers leave in memory. Storage is column-major:
  \<open>entry mem A lda r c\<close> is the element in row \<open>r\<close> and column \<open>c\<close> of the matrix at
  \<open>A\<close> with leading dimension \<open>lda\<close>.
\<close>

definition entry :: "(nat \<Rightarrow> 'a) \<Rightarrow> nat \<Rightarrow> nat \<Rightarrow> nat \<Rightarrow> nat \<Rightarrow> 'a" where
  "entry mem A lda r c = mem (A + (r + c * lda))"

text \<open>
  What the hermitian and symmetric branches leave at a position \<open>u\<close> of the upper
  triangle and at its mirror image \<open>l\<close> in the lower triangle: for fill mode \<open>U\<close> a
  generated value and zero, for fill mode \<open>L\<close> zero and a generated value, and for any
  other fill mode a generated value and its image under \<open>cj\<close>.
\<close>

definition mirrored_pair :: "('a \<Rightarrow> 'a) \<Rightarrow> ('s \<Rightarrow> 'a::zero \<times> 's) \<Rightarrow> char \<Rightarrow> 'a \<Rightarrow> 'a \<Rightarrow> bool" where
  "mirrored_pair cj gen uplo u l =
     (if uplo = CHR ''U'' then (\<exists>s. u = fst (gen s)) \<and> l = 0
      else if uplo = CHR ''L'' then u = 0 \<and> (\<exists>s. l = fst (gen s))
      else (\<exists>s. u = fst (gen s) \<and> l = cj (fst (gen s))))"



text \<open>
  Generators and helpers for the examples: a generator of complex values
  \<open>(s + 1) + (s + 2) i\<close>, the real part and the sum of the absolute values of the two
  parts as \<open>hipblas_real\<close> and \<open>hipblas_abs\<close> on complex numbers, and a generator of
  rational values \<open>1, 2, 3, ...\<close>.
\<close>

definition complex_gen :: "nat \<Rightarrow> complex \<times> nat" where
  "complex_gen s = (Complex (of_nat s + 1) (of_nat s + 2), s + 1)"

definition complex_real :: "complex \<Rightarrow> complex" where
  "complex_real z = of_real (Re z)"

definition complex_abs :: "complex \<Rightarrow> complex" where
  "complex_abs z = of_real (\<bar>Re z\<bar> + \<bar>Im z\<bar>)"

definition rat_gen :: "nat \<Rightarrow> rat \<times> nat" where
  "rat_gen s = (of_nat s + 1, s + 1)"

section \<open>Loops over stores\<close>

text \<open>
  Facts about folds that are used for all the loops below: a nest of two loops is one
  loop over the list of its index pairs; a loop establishes a property of the store at a
  place when one of its steps establishes it and the other steps leave the place alone.
\<close>

lemma fold_nested:
  "fold (\<lambda>i. fold (h i) (row i)) xs st =
     fold (\<lambda>(i, j). h i j) (concat (map (\<lambda>i. map (Pair i) (row i)) xs)) st"
proof (induction xs arbitrary: st)
  case Nil
  show ?case by simp
next
  case (Cons x xs)
  have "(\<lambda>(i, j). h i j) \<circ> Pair x = h x"
    by (simp add: fun_eq_iff)
  then show ?case
    by (simp add: fold_map Cons.IH)
qed

lemma cm_index_inj:
  fixes r :: nat
  assumes "r < n" "r' < n" "r + c * n = r' + c' * n"
  shows "r = r' \<and> c = c'"
proof -
  have "(r + c * n) mod n = (r' + c' * n) mod n" using assms(3) by simp
  then have r: "r = r'" using assms(1,2) by simp
  have "(r + c * n) div n = (r' + c' * n) div n" using assms(3) by simp
  then have "c = c'" using assms(1,2) by simp
  with r show ?thesis by simp
qed

lemma cm_index_bound:
  fixes r :: nat
  assumes "r < lda" "c < N"
  shows "r + c * lda < lda * N"
proof -
  have "r + c * lda < (c + 1) * lda" using assms(1) by simp
  also have "\<dots> \<le> N * lda" using assms(2) by (intro mult_le_mono1) simp
  finally show ?thesis by (simp add: mult.commute)
qed

lemma fold_establish:
  assumes "x \<in> set xs"
    and "\<And>st. Q (fst (f x st) p)"
    and "\<And>y st. y \<in> set xs \<Longrightarrow> y \<noteq> x \<Longrightarrow> fst (f y st) p = fst st p"
  shows "Q (fst (fold f xs st) p)"
  using assms(1,3)
proof (induction xs arbitrary: rule: rev_induct)
  case Nil
  then show ?case by simp
next
  case (snoc y ys)
  show ?case
  proof (cases "y = x")
    case True
    then show ?thesis using assms(2) by simp
  next
    case False
    then have "x \<in> set ys" using snoc.prems(1) by simp
    moreover have "\<And>z st. z \<in> set ys \<Longrightarrow> z \<noteq> x \<Longrightarrow> fst (f z st) p = fst st p"
      using snoc.prems(2) by simp
    ultimately have "Q (fst (fold f ys st) p)" by (rule snoc.IH)
    moreover have "fst (f y (fold f ys st)) p = fst (fold f ys st) p"
      using snoc.prems(2) False by simp
    ultimately show ?thesis by simp
  qed
qed

lemma fold_frame:
  assumes "\<And>y st. y \<in> set xs \<Longrightarrow> fst (f y st) p = fst st p"
  shows "fst (fold f xs st) p = fst st p"
  using assms
  by (induction xs rule: rev_induct) simp_all

lemma fold_establish_region:
  assumes "x \<in> set xs"
    and "\<And>st. Q (fst (f x st))"
    and "\<And>y st p. y \<in> set xs \<Longrightarrow> y \<noteq> x \<Longrightarrow> p \<in> R \<Longrightarrow> fst (f y st) p = fst st p"
    and "\<And>m m'. (\<And>p. p \<in> R \<Longrightarrow> m' p = m p) \<Longrightarrow> Q m \<Longrightarrow> Q m'"
  shows "Q (fst (fold f xs st))"
  using assms(1,3)
proof (induction xs rule: rev_induct)
  case Nil
  then show ?case by simp
next
  case (snoc y ys)
  show ?case
  proof (cases "y = x")
    case True
    then show ?thesis using assms(2) by simp
  next
    case False
    then have "x \<in> set ys" using snoc.prems(1) by simp
    moreover have "\<And>z st p. z \<in> set ys \<Longrightarrow> z \<noteq> x \<Longrightarrow> p \<in> R \<Longrightarrow> fst (f z st) p = fst st p"
      using snoc.prems(2) by simp
    ultimately have q: "Q (fst (fold f ys st))" by (rule snoc.IH)
    have "\<And>p. p \<in> R \<Longrightarrow> fst (f y (fold f ys st)) p = fst (fold f ys st) p"
      using snoc.prems(2) False by simp
    then have "Q (fst (f y (fold f ys st)))" using q by (rule assms(4))
    then show ?thesis by simp
  qed
qed



section \<open>Tolerance table: the half-precision entry\<close>

text \<open>
  C9. The claim is that the table maps half precision to the smallest positive normal
  half-precision value, \<open>2^-14 = 0.00006103515625\<close>, and every other precision to zero.
  The comment in the source says the same (\<open>2 ^ -14, smallest positive normal number for
  IEEE16\<close>), but the constant written there is the shorter decimal \<open>0.000061035\<close>, which
  is strictly below \<open>2^-14\<close>. The theorem evaluates the table at half precision.
\<close>

theorem error_tolerance_half_below_min_normal:
  "error_tolerance Half = 61035 / 1000000000
   \<and> error_tolerance Half < 1 / 2 ^ 14
   \<and> error_tolerance Half \<noteq> 1 / 2 ^ 14"
  by (simp add: error_tolerance_def)

section \<open>Packed storage\<close>


lemma fold_emit:
  "fold (emit f) xs (AP, k) =
     (\<lambda>p. if k \<le> p \<and> p < k + length xs then f (xs ! (p - k)) else AP p, k + length xs)"
proof (induction xs arbitrary: AP k)
  case Nil
  show ?case by (auto simp: fun_eq_iff)
next
  case (Cons x xs)
  have "fold (emit f) (x # xs) (AP, k) = fold (emit f) xs (AP(k := f x), k + 1)"
    by (simp add: emit_def)
  also have "\<dots> = (\<lambda>p. if k + 1 \<le> p \<and> p < k + 1 + length xs then f (xs ! (p - (k + 1)))
                        else (AP(k := f x)) p, k + 1 + length xs)"
    by (rule Cons.IH)
  also have "\<dots> = (\<lambda>p. if k \<le> p \<and> p < k + length (x # xs) then f ((x # xs) ! (p - k)) else AP p,
                    k + length (x # xs))"
    by (auto simp: fun_eq_iff nth_Cons')
  finally show ?case .
qed

lemma fold_emit_nested:
  "fold (\<lambda>i. fold (emit (g i)) (row i)) xs st =
     fold (emit (\<lambda>(i, j). g i j)) (concat (map (\<lambda>i. map (Pair i) (row i)) xs)) st"
proof (induction xs arbitrary: st)
  case Nil
  show ?case by simp
next
  case (Cons x xs)
  have "emit (\<lambda>(i, j). g i j) \<circ> Pair x = emit (g x)"
    by (simp add: fun_eq_iff emit_def)
  then show ?case
    by (simp add: fold_map Cons.IH)
qed


lemma tri_Suc: "tri (Suc c) = tri c + Suc c"
proof -
  have "Suc c * (Suc c + 1) = c * (c + 1) + Suc c * 2" by (simp add: algebra_simps)
  then show ?thesis by (simp add: tri_def)
qed


lemma lo_Suc: "c < n \<Longrightarrow> low_off n (Suc c) = low_off n c + (n - c)"
proof -
  assume "c < n"
  then obtain d where n: "n = c + d" and "0 < d" by (metis less_imp_add_positive)
  have "Suc c * (2 * n - Suc c + 1) = c * (2 * n - c + 1) + (n - c) * 2"
    using \<open>0 < d\<close> by (simp add: n algebra_simps)
  then have "low_off n (Suc c) = (c * (2 * n - c + 1) + (n - c) * 2) div 2"
    by (simp only: low_off_def)
  also have "\<dots> = c * (2 * n - c + 1) div 2 + (n - c)"
    by simp
  finally show ?thesis by (simp only: low_off_def)
qed

lemma ucells_Suc: "ucells (Suc n) = ucells n @ map (Pair n) [0..<n + 1]"
  by (simp add: ucells_def)

lemma length_ucells: "length (ucells n) = tri n"
  by (induction n) (simp_all add: ucells_Suc tri_Suc, simp add: ucells_def tri_def)

lemma tri_mono: "c \<le> n \<Longrightarrow> tri c \<le> tri n"
  by (induction n) (auto simp: tri_Suc le_Suc_eq)

lemma ucells_nth: "c < n \<Longrightarrow> r \<le> c \<Longrightarrow> ucells n ! (r + tri c) = (c, r)"
proof (induction n)
  case 0
  then show ?case by simp
next
  case (Suc n)
  show ?case
  proof (cases "c < n")
    case True
    have "r + tri c < tri (Suc c)" using Suc.prems by (simp add: tri_Suc)
    also have "\<dots> \<le> tri n" using True by (intro tri_mono) simp
    finally have "r + tri c < length (ucells n)" by (simp add: length_ucells)
    then show ?thesis using Suc.IH True Suc.prems by (simp add: ucells_Suc nth_append)
  next
    case False
    then have c: "c = n" using Suc.prems by simp
    have "ucells (Suc n) ! (r + tri c) = map (Pair n) [0..<n + 1] ! r"
      unfolding ucells_Suc c by (simp add: nth_append length_ucells)
    also have "\<dots> = (n, r)" using Suc.prems c by (simp del: upt_Suc)
    finally show ?thesis by (simp add: c)
  qed
qed

lemma lcells_Suc: "lcells n (Suc m) = lcells n m @ map (Pair m) [m..<n]"
  by (simp add: lcells_def)

lemma length_lcells: "m \<le> n \<Longrightarrow> length (lcells n m) = low_off n m"
proof (induction m)
  case 0
  show ?case by (simp add: lcells_def low_off_def)
next
  case (Suc m)
  then show ?case by (simp add: lcells_Suc lo_Suc)
qed

lemma lo_mono: "c \<le> m \<Longrightarrow> m \<le> n \<Longrightarrow> low_off n c \<le> low_off n m"
proof (induction m)
  case 0
  then show ?case by simp
next
  case (Suc m)
  then show ?case by (cases "c = Suc m") (auto simp: lo_Suc)
qed

lemma lcells_nth:
  "c < m \<Longrightarrow> m \<le> n \<Longrightarrow> c \<le> r \<Longrightarrow> r < n \<Longrightarrow> lcells n m ! ((r - c) + low_off n c) = (c, r)"
proof (induction m)
  case 0
  then show ?case by simp
next
  case (Suc m)
  show ?case
  proof (cases "c < m")
    case True
    have "(r - c) + low_off n c < low_off n (Suc c)" using Suc.prems True by (simp add: lo_Suc)
    also have "\<dots> \<le> low_off n m" using True Suc.prems by (intro lo_mono) simp_all
    finally have "(r - c) + low_off n c < length (lcells n m)" using Suc.prems by (simp add: length_lcells)
    then show ?thesis using Suc.IH True Suc.prems by (simp add: lcells_Suc nth_append)
  next
    case False
    then have c: "c = m" using Suc.prems by simp
    have "lcells n (Suc m) ! ((r - c) + low_off n c) = map (Pair m) [m..<n] ! (r - m)"
      unfolding lcells_Suc c using Suc.prems by (simp add: nth_append length_lcells)
    also have "\<dots> = (m, r)" using Suc.prems c by simp
    finally show ?thesis by (simp add: c)
  qed
qed


lemma fold_store_frame:
  "p \<notin> loc ` set xs \<Longrightarrow> fold (\<lambda>x B. B(loc x := val x)) xs B p = B p"
  by (induction xs arbitrary: B) auto

lemma fold_store_at:
  "x \<in> set xs \<Longrightarrow> inj_on loc (set xs) \<Longrightarrow> fold (\<lambda>x B. B(loc x := val x)) xs B (loc x) = val x"
proof (induction xs arbitrary: B)
  case Nil
  then show ?case by simp
next
  case (Cons y ys)
  have inj: "inj_on loc (set ys)" using Cons.prems(2) by (simp add: inj_on_def)
  show ?case
  proof (cases "x \<in> set ys")
    case True
    then show ?thesis using Cons.IH inj by simp
  next
    case False
    then have xy: "x = y" using Cons.prems(1) by simp
    have "loc y \<notin> loc ` set ys"
      using Cons.prems(2) False xy by (auto simp: inj_on_def)
    then have "fold (\<lambda>x B. B(loc x := val x)) ys (B(loc y := val y)) (loc y)
        = (B(loc y := val y)) (loc y)"
      by (rule fold_store_frame)
    then show ?thesis
      unfolding xy by (simp only: fold_simps comp_apply fun_upd_same)
  qed
qed

lemma set_ucells: "set (ucells n) = {(c, r). c < n \<and> r \<le> c}"
  by (auto simp: ucells_def simp del: upt_Suc)

lemma set_lcells: "set (lcells n m) = {(c, r). c < m \<and> c \<le> r \<and> r < n}"
  by (auto simp: lcells_def)

lemma regular_to_packed_run_upper:
  "regular_to_packed_run True A AP n =
     (\<lambda>p. if p < tri n then (\<lambda>(c, r). A (r + c * n)) (ucells n ! p) else AP p, tri n)"
proof -
  have "fold (\<lambda>i. fold (emit (\<lambda>j. A (j + i * n))) [0..<i + 1]) [0..<n] (AP, 0)
      = fold (emit (\<lambda>(i, j). A (j + i * n))) (ucells n) (AP, 0)"
    unfolding ucells_def by (rule fold_emit_nested)
  then show ?thesis
    by (simp add: regular_to_packed_run_def fold_emit length_ucells del: upt_Suc cong: if_cong)
qed

lemma regular_to_packed_run_lower:
  "regular_to_packed_run False A AP n =
     (\<lambda>p. if p < low_off n n then (\<lambda>(c, r). A (r + c * n)) (lcells n n ! p) else AP p, low_off n n)"
proof -
  have "fold (\<lambda>i. fold (emit (\<lambda>j. A (j + i * n))) [i..<n]) [0..<n] (AP, 0)
      = fold (emit (\<lambda>(i, j). A (j + i * n))) (lcells n n) (AP, 0)"
    unfolding lcells_def by (rule fold_emit_nested)
  then show ?thesis
    by (simp add: regular_to_packed_run_def fold_emit length_lcells cong: if_cong)
qed

lemma lo_full: "low_off n n = n * (n + 1) div 2"
  by (simp add: low_off_def)

lemma upper_by_columns_cells: "upper_by_columns A n = map (\<lambda>(c, r). A (r + c * n)) (ucells n)"
  by (simp add: upper_by_columns_def ucells_def map_concat comp_def del: upt_Suc)

lemma lower_by_columns_cells: "lower_by_columns A n = map (\<lambda>(c, r). A (r + c * n)) (lcells n n)"
  by (simp add: lower_by_columns_def lcells_def map_concat comp_def del: upt_Suc)

lemma map_nth_image: "map (\<lambda>p. if p < length xs then g (xs ! p) else d p) [0..<length xs] = map g xs"
  by (rule nth_equalityI) simp_all

lemma packed_upper_listing:
  "map (regular_to_packed True A AP n) [0..<n * (n + 1) div 2] = upper_by_columns A n"
  using map_nth_image[of "ucells n" "\<lambda>(c, r). A (r + c * n)" AP]
  by (simp add: regular_to_packed_def regular_to_packed_run_upper upper_by_columns_cells
      length_ucells tri_def)

lemma packed_lower_listing:
  "map (regular_to_packed False A AP n) [0..<n * (n + 1) div 2] = lower_by_columns A n"
  using map_nth_image[of "lcells n n" "\<lambda>(c, r). A (r + c * n)" AP]
  by (simp add: regular_to_packed_def regular_to_packed_run_lower lower_by_columns_cells
      length_lcells lo_full)

lemma packed_upper_at:
  assumes "c < n" "r \<le> c"
  shows "regular_to_packed True A AP n (packed_index True n r c) = A (r + c * n)"
proof -
  have "r + tri c < tri (Suc c)" using assms by (simp add: tri_Suc)
  also have "\<dots> \<le> tri n" using assms by (intro tri_mono) simp
  finally have lt: "r + tri c < tri n" .
  show ?thesis
    using lt ucells_nth[OF assms]
    by (simp add: regular_to_packed_def regular_to_packed_run_upper packed_index_def tri_def)
qed

lemma packed_lower_at:
  assumes "c < n" "c \<le> r" "r < n"
  shows "regular_to_packed False A AP n (packed_index False n r c) = A (r + c * n)"
proof -
  have "(r - c) + low_off n c < low_off n (Suc c)" using assms by (simp add: lo_Suc)
  also have "\<dots> \<le> low_off n n" using assms by (intro lo_mono) simp_all
  finally have lt: "(r - c) + low_off n c < low_off n n" .
  show ?thesis
    using lt lcells_nth[OF assms(1) le_refl assms(2,3)]
    by (simp add: regular_to_packed_def regular_to_packed_run_lower packed_index_def low_off_def)
qed

lemma packed_to_regular_cells:
  "packed_to_regular upper AP B n =
     fold (\<lambda>x B'. B'((\<lambda>(c, r). r + c * n) x := (\<lambda>(c, r). AP (packed_index upper n r c)) x))
       (if upper then ucells n else lcells n n) B"
proof -
  have eq: "(\<lambda>(c, r) B'. B'(r + c * n := AP (packed_index upper n r c)))
      = (\<lambda>x B'. B'((\<lambda>(c, r). r + c * n) x := (\<lambda>(c, r). AP (packed_index upper n r c)) x))"
    by (simp add: fun_eq_iff)
  show ?thesis
    unfolding packed_to_regular_def
    using fold_nested[of "\<lambda>c r B'. B'(r + c * n := AP (packed_index upper n r c))"
        "\<lambda>c. if upper then [0..<c + 1] else [c..<n]" "[0..<n]" B]
    by (simp add: eq ucells_def lcells_def if_distrib[of "map _"] cong: if_cong del: upt_Suc)
qed

lemma packed_to_regular_at:
  assumes "c < n" "if upper then r \<le> c else c \<le> r \<and> r < n"
  shows "packed_to_regular upper AP B n (r + c * n) = AP (packed_index upper n r c)"
proof -
  let ?cells = "if upper then ucells n else lcells n n"
  let ?loc = "\<lambda>(c, r). r + c * n"
  have mem: "(c, r) \<in> set ?cells" using assms by (auto simp: set_ucells set_lcells)
  have inj: "inj_on ?loc (set ?cells)"
    by (auto simp: inj_on_def set_ucells set_lcells dest: cm_index_inj[rotated 2])
  show ?thesis
    unfolding packed_to_regular_cells
    using fold_store_at[OF mem inj, of "\<lambda>(c, r). AP (packed_index upper n r c)" B]
    by simp
qed

text \<open>
  C6, as amended. The claim says that the converter visits the upper triangle column by
  column and the lower triangle row by row. The code visits both triangles column by
  column, which is what standard packed addressing of a column-major matrix needs:
  read in order, the first \<open>n (n + 1) / 2\<close> packed elements are the selected triangle
  listed column by column, the running index ends at \<open>n (n + 1) / 2\<close> (one step per
  stored element), and the element in row \<open>r\<close>, column \<open>c\<close> of the triangle sits at its
  standard packed offset.
\<close>

theorem regular_to_packed_by_columns:
  "map (regular_to_packed True A AP n) [0..<n * (n + 1) div 2] = upper_by_columns A n
   \<and> map (regular_to_packed False A AP n) [0..<n * (n + 1) div 2] = lower_by_columns A n
   \<and> snd (regular_to_packed_run upper A AP n) = n * (n + 1) div 2
   \<and> (c < n \<and> r \<le> c \<longrightarrow>
        regular_to_packed True A AP n (packed_index True n r c) = A (r + c * n))
   \<and> (c < n \<and> c \<le> r \<and> r < n \<longrightarrow>
        regular_to_packed False A AP n (packed_index False n r c) = A (r + c * n))"
proof -
  have len: "snd (regular_to_packed_run upper A AP n) = n * (n + 1) div 2"
    by (cases upper)
      (simp_all add: regular_to_packed_run_upper regular_to_packed_run_lower lo_full tri_def)
  have ua: "c < n \<and> r \<le> c \<longrightarrow>
      regular_to_packed True A AP n (packed_index True n r c) = A (r + c * n)"
    using packed_upper_at[of c n r A AP] by simp
  have la: "c < n \<and> c \<le> r \<and> r < n \<longrightarrow>
      regular_to_packed False A AP n (packed_index False n r c) = A (r + c * n)"
    using packed_lower_at[of c n r A AP] by simp
  from packed_upper_listing[of A AP n] packed_lower_listing[of A AP n] len ua la
  show ?thesis by - (intro conjI, assumption+)
qed

theorem regular_to_packed_by_columns_witness:
  "map (regular_to_packed True (\<lambda>k. int k) (\<lambda>_. 0) 3) [0..<6] = upper_by_columns (\<lambda>k. int k) 3
   \<and> map (regular_to_packed False (\<lambda>k. int k) (\<lambda>_. 0) 3) [0..<6] = lower_by_columns (\<lambda>k. int k) 3
   \<and> snd (regular_to_packed_run False (\<lambda>k. int k) (\<lambda>_. 0) 3) = 6
   \<and> regular_to_packed True (\<lambda>k. int k) (\<lambda>_. 0) 3 (packed_index True 3 1 2) = 7
   \<and> regular_to_packed False (\<lambda>k. int k) (\<lambda>_. 0) 3 (packed_index False 3 2 1) = 5"
  using regular_to_packed_by_columns [of "\<lambda>k. int k" "\<lambda>_. 0" 3 False 2 1]
    regular_to_packed_by_columns [of "\<lambda>k. int k" "\<lambda>_. 0" 3 False 1 2]
  by simp

text \<open>
  The claim as stated fails for the lower triangle of a 3 x 3 matrix whose element at
  offset \<open>k\<close> is \<open>k\<close>: the third packed element is the one of row 2, column 0, where a
  row-by-row listing of the lower triangle has the one of row 1, column 1.
\<close>

theorem regular_to_packed_lower_not_by_rows:
  "map (regular_to_packed False (\<lambda>k. int k) (\<lambda>_. 0) 3) [0..<6] = [0, 1, 2, 4, 5, 8]
   \<and> lower_by_rows (\<lambda>k. int k) 3 = [0, 1, 4, 2, 5, 8]
   \<and> map (regular_to_packed False (\<lambda>k. int k) (\<lambda>_. 0) 3) [0..<6] \<noteq> lower_by_rows (\<lambda>k. int k) 3"
proof -
  have a: "map (regular_to_packed False (\<lambda>k. int k) (\<lambda>_. 0) 3) [0..<6] = [0, 1, 2, 4, 5, 8]"
    by code_simp
  have b: "lower_by_rows (\<lambda>k. int k) 3 = [0, 1, 4, 2, 5, 8]"
    by code_simp
  show ?thesis by (simp add: a b)
qed

text \<open>
  C7. Packing and then unpacking reproduces the selected triangle: for every \<open>n\<close> (in
  particular for \<open>1 \<le> n \<le> 65\<close>), every fill mode and every dense matrix \<open>A\<close>, every
  element of the selected triangle of the unpacked matrix is the element of \<open>A\<close> at the
  same place, whatever the packed buffer \<open>AP\<close> and the target buffer \<open>B\<close> held before.
\<close>

theorem packed_round_trip:
  assumes "c < n" and "if upper then r \<le> c else c \<le> r \<and> r < n"
  shows "packed_to_regular upper (regular_to_packed upper A AP n) B n (r + c * n) = A (r + c * n)"
proof -
  have "packed_to_regular upper (regular_to_packed upper A AP n) B n (r + c * n)
      = regular_to_packed upper A AP n (packed_index upper n r c)"
    by (rule packed_to_regular_at[OF assms])
  also have "\<dots> = A (r + c * n)"
    using assms packed_upper_at[of c n r A AP] packed_lower_at[of c n r A AP]
    by (cases upper) simp_all
  finally show ?thesis .
qed

theorem packed_round_trip_witness:
  "packed_to_regular False (regular_to_packed False (\<lambda>k. int k) (\<lambda>_. 0) 65) (\<lambda>_. 0) 65 (64 + 3 * 65)
     = int (64 + 3 * 65)
   \<and> packed_to_regular True (regular_to_packed True (\<lambda>k. int k) (\<lambda>_. 0) 1) (\<lambda>_. 0) 1 (0 + 0 * 1)
     = int (0 + 0 * 1)"
  using packed_round_trip [of 3 65 False 64 "\<lambda>k. int k" "\<lambda>_. 0" "\<lambda>_. 0"]
    packed_round_trip [of 0 1 True 0 "\<lambda>k. int k" "\<lambda>_. 0" "\<lambda>_. 0"]
  by simp

section \<open>Quick returns of the drivers and the bad-argument suites\<close>









section \<open>Footprint of the vector initializers\<close>

lemma s64_id: "- (2 ^ 63) \<le> v \<Longrightarrow> v < 2 ^ 63 \<Longrightarrow> s64 v = v"
  by (simp add: s64_def)

lemma fold_write_next_offsets:
  "map fst (fst (fold (\<lambda>j. write_next rand_gen (f j) (p j)) js (ws, s))) = map fst ws @ map p js"
proof (induction js arbitrary: ws s)
  case Nil
  show ?case by simp
next
  case (Cons j js)
  obtain v s' where g: "rand_gen s = (v, s')" by (cases "rand_gen s")
  have "fold (\<lambda>j. write_next rand_gen (f j) (p j)) (j # js) (ws, s)
      = fold (\<lambda>j. write_next rand_gen (f j) (p j)) js (ws @ [(p j, f j v)], s')"
    by (simp add: write_next_def g)
  then show ?case by (simp add: Cons.IH)
qed

lemma offset_in_range:
  assumes "inc \<noteq> 0" "(N - 1) * \<bar>inc\<bar> < 2 ^ 63" "0 \<le> j" "j \<le> N - 1"
  shows "(if inc < 0 then 0 - s64 ((N - 1) * inc) else 0) + s64 (j * inc)
         = (if inc < 0 then (N - 1 - j) * \<bar>inc\<bar> else j * inc)"
proof -
  have le: "j * \<bar>inc\<bar> \<le> (N - 1) * \<bar>inc\<bar>"
    using assms(4) by (intro mult_right_mono) simp_all
  have j0: "0 \<le> j * \<bar>inc\<bar>" using assms(3) by simp
  have n0: "0 \<le> (N - 1) * \<bar>inc\<bar>" using le j0 by simp
  show ?thesis
  proof (cases "inc < 0")
    case True
    then have a: "\<bar>inc\<bar> = - inc" by simp
    have "s64 (j * inc) = j * inc"
      using le j0 assms(2) by (intro s64_id) (simp_all add: a)
    moreover have "s64 ((N - 1) * inc) = (N - 1) * inc"
      using n0 assms(2) by (intro s64_id) (simp_all add: a)
    ultimately show ?thesis using True by (simp add: a algebra_simps)
  next
    case False
    then have a: "\<bar>inc\<bar> = inc" by simp
    have "s64 (j * inc) = j * inc"
      using le j0 assms(2) by (intro s64_id) (simp_all add: a)
    then show ?thesis using False by simp
  qed
qed

lemma traversal_offsets:
  assumes "inc \<noteq> 0" "(N - 1) * \<bar>inc\<bar> < 2 ^ 63"
  shows "map (\<lambda>j. (if inc < 0 then 0 - s64 ((N - 1) * inc) else 0) + s64 (j * inc)) [0..N - 1]
         = vector_offsets N inc"
  unfolding vector_offsets_def
  by (rule map_cong[OF refl]) (simp only: offset_in_range[OF assms] set_upto atLeastAtMost_iff)

lemma init_vector_offsets:
  assumes "inc \<noteq> 0" "(N - 1) * \<bar>inc\<bar> < 2 ^ 63"
  shows "map fst (fst (hipblas_init_vector rand_gen N inc s)) = vector_offsets N inc"
  unfolding hipblas_init_vector_def Let_def
  using fold_write_next_offsets[of rand_gen "\<lambda>j. id"
      "\<lambda>j. (if inc < 0 then 0 - s64 ((N - 1) * inc) else 0) + s64 (j * inc)" "[0..N - 1]" "[]" s]
  by (simp only: traversal_offsets[OF assms] list.map append_Nil)

lemma init_vector_alternating_sign_offsets:
  assumes "inc \<noteq> 0" "(N - 1) * \<bar>inc\<bar> < 2 ^ 63"
  shows "map fst (fst (hipblas_init_vector_alternating_sign neg rand_gen N inc s))
         = vector_offsets N inc"
  unfolding hipblas_init_vector_alternating_sign_def Let_def
  using fold_write_next_offsets[of rand_gen "\<lambda>j. if j mod 2 = 1 then id else neg"
      "\<lambda>j. (if inc < 0 then 0 - s64 ((N - 1) * inc) else 0) + s64 (j * inc)" "[0..N - 1]" "[]" s]
  by (simp only: traversal_offsets[OF assms] list.map append_Nil)

lemma init_template_batch_offsets:
  assumes "inc \<noteq> 0" "(n - 1) * \<bar>inc\<bar> < 2 ^ 63"
  shows "map fst (fst (hipblas_init_template_batch neg inc n rand_gen alt s))
         = vector_offsets n inc"
proof (cases alt)
  case True
  then show ?thesis
    unfolding hipblas_init_template_batch_def Let_def
    using fold_write_next_offsets[of rand_gen "\<lambda>j. if j mod 2 = 1 then id else neg"
        "\<lambda>j. (if inc < 0 then 0 - s64 ((n - 1) * inc) else 0) + s64 (j * inc)" "[0..n - 1]" "[]" s]
    by (simp only: traversal_offsets[OF assms] list.map append_Nil if_True)
next
  case False
  then show ?thesis
    unfolding hipblas_init_template_batch_def Let_def
    using fold_write_next_offsets[of rand_gen "\<lambda>j. id"
        "\<lambda>j. (if inc < 0 then 0 - s64 ((n - 1) * inc) else 0) + s64 (j * inc)" "[0..n - 1]" "[]" s]
    by (simp only: traversal_offsets[OF assms] list.map append_Nil if_False)
qed

lemma init_template_logs:
  assumes "inc \<noteq> 0" "(n - 1) * \<bar>inc\<bar> < 2 ^ 63"
  shows "map (map fst)
           (fst (fold (\<lambda>batch_index (logs, s').
                   let (ws, s'') = hipblas_init_template_batch neg inc n rand_gen alt s'
                   in (logs @ [ws], s'')) bs (logs0, s)))
         = map (map fst) logs0 @ map (\<lambda>b. vector_offsets n inc) bs"
    (is "map (map fst) (fst (fold ?F bs (logs0, s))) = _")
proof (induction bs arbitrary: logs0 s)
  case Nil
  show ?case by simp
next
  case (Cons b bs)
  obtain ws s' where g: "hipblas_init_template_batch neg inc n rand_gen alt s = (ws, s')"
    by (cases "hipblas_init_template_batch neg inc n rand_gen alt s")
  have ws: "map fst ws = vector_offsets n inc"
    using init_template_batch_offsets[OF assms, of neg rand_gen alt s] by (simp add: g)
  have step: "fold ?F (b # bs) (logs0, s) = fold ?F bs (logs0 @ [ws], s')"
    by (simp add: g)
  show ?case unfolding step Cons.IH by (simp add: ws)
qed

lemma init_template_offsets:
  assumes "inc \<noteq> 0" "(n - 1) * \<bar>inc\<bar> < 2 ^ 63"
  shows "map (map fst) (fst (hipblas_init_template neg seed bc inc n rand_gen reset alt s))
         = map (\<lambda>b. vector_offsets n inc) [0..bc - 1]"
  unfolding hipblas_init_template_def
  using init_template_logs[OF assms, of neg rand_gen alt "[0..bc - 1]" "[]"
      "if reset then seed else s"]
  by simp

lemma vector_offsets_bounds:
  assumes "inc \<noteq> 0" "p \<in> set (vector_offsets N inc)"
  shows "0 \<le> p \<and> p \<le> (N - 1) * \<bar>inc\<bar>"
proof (cases "inc < 0")
  case True
  then obtain j where j: "0 \<le> j" "j \<le> N - 1" and p: "p = (N - 1 - j) * \<bar>inc\<bar>"
    using assms(2) by (auto simp: vector_offsets_def)
  have "(N - 1 - j) * \<bar>inc\<bar> \<le> (N - 1) * \<bar>inc\<bar>"
    using j by (intro mult_right_mono) simp_all
  then show ?thesis using p j by simp
next
  case False
  then obtain j where j: "0 \<le> j" "j \<le> N - 1" and p: "p = j * inc"
    using assms(2) by (auto simp: vector_offsets_def)
  have "j * \<bar>inc\<bar> \<le> (N - 1) * \<bar>inc\<bar>"
    using j by (intro mult_right_mono) simp_all
  then show ?thesis using False p j by simp
qed

lemma vector_offsets_abs: "set (vector_offsets N inc) = set (vector_offsets N \<bar>inc\<bar>)"
proof (cases "inc < 0")
  case False
  then show ?thesis by simp
next
  case True
  have "set (vector_offsets N inc) = (\<lambda>j. (N - 1 - j) * \<bar>inc\<bar>) ` {0..N - 1}"
    using True by (simp add: vector_offsets_def)
  also have "\<dots> = (\<lambda>j. j * \<bar>inc\<bar>) ` ((\<lambda>j. N - 1 - j) ` {0..N - 1})"
    by (simp only: image_image)
  also have "(\<lambda>j. N - 1 - j) ` {0..N - 1} = {0..N - 1}"
    by simp
  also have "(\<lambda>j. j * \<bar>inc\<bar>) ` {0..N - 1} = set (vector_offsets N \<bar>inc\<bar>)"
    using True by (simp add: vector_offsets_def)
  finally show ?thesis .
qed

text \<open>
  C10. For a nonzero increment \<open>inc\<close> whose footprint \<open>(N - 1) * |inc|\<close> is
  representable (below \<open>2^63\<close>), each of \<open>hipblas_init_vector\<close>,
  \<open>hipblas_init_vector_alternating_sign\<close> and \<open>hipblas_init_template\<close> (for every batch)
  writes, in this order, at the offsets \<open>vector_offsets N inc\<close> from the pointer it was
  given: element \<open>j\<close> at \<open>j * inc\<close> when \<open>inc > 0\<close> and, the base having been advanced by
  \<open>-(N - 1) * inc\<close>, at \<open>(N - 1 - j) * |inc|\<close> when \<open>inc < 0\<close>. Hence every write lands
  in \<open>[0, (N - 1) * |inc|]\<close>, and the set of offsets written is the one written for the
  positive increment \<open>|inc|\<close>.
\<close>

theorem vector_init_footprint:
  assumes "inc \<noteq> 0" and "(N - 1) * \<bar>inc\<bar> < 2 ^ 63"
  shows "map fst (fst (hipblas_init_vector rand_gen N inc s)) = vector_offsets N inc
    \<and> map fst (fst (hipblas_init_vector_alternating_sign neg rand_gen N inc s))
        = vector_offsets N inc
    \<and> map (map fst) (fst (hipblas_init_template neg seed batch_count inc N rand_gen reset alt s))
        = replicate (nat batch_count) (vector_offsets N inc)
    \<and> (\<forall>p \<in> set (vector_offsets N inc). 0 \<le> p \<and> p \<le> (N - 1) * \<bar>inc\<bar>)
    \<and> set (map fst (fst (hipblas_init_vector rand_gen N inc s)))
        = set (map fst (fst (hipblas_init_vector rand_gen N \<bar>inc\<bar> s)))
    \<and> set (map fst (fst (hipblas_init_vector_alternating_sign neg rand_gen N inc s)))
        = set (map fst (fst (hipblas_init_vector_alternating_sign neg rand_gen N \<bar>inc\<bar> s)))
    \<and> map set (map (map fst)
          (fst (hipblas_init_template neg seed batch_count inc N rand_gen reset alt s)))
        = map set (map (map fst)
          (fst (hipblas_init_template neg seed batch_count \<bar>inc\<bar> N rand_gen reset alt s)))"
proof -
  have abs: "\<bar>inc\<bar> \<noteq> 0" "(N - 1) * \<bar>\<bar>inc\<bar>\<bar> < 2 ^ 63" using assms by simp_all
  have rep: "map (\<lambda>b. vector_offsets N i) [0..batch_count - 1]
      = replicate (nat batch_count) (vector_offsets N i)" for i
    by (simp add: map_replicate_const)
  have v: "map fst (fst (hipblas_init_vector rand_gen N inc s)) = vector_offsets N inc"
    by (rule init_vector_offsets[OF assms])
  have v': "map fst (fst (hipblas_init_vector rand_gen N \<bar>inc\<bar> s)) = vector_offsets N \<bar>inc\<bar>"
    by (rule init_vector_offsets[OF abs])
  have a: "map fst (fst (hipblas_init_vector_alternating_sign neg rand_gen N inc s))
      = vector_offsets N inc"
    by (rule init_vector_alternating_sign_offsets[OF assms])
  have a': "map fst (fst (hipblas_init_vector_alternating_sign neg rand_gen N \<bar>inc\<bar> s))
      = vector_offsets N \<bar>inc\<bar>"
    by (rule init_vector_alternating_sign_offsets[OF abs])
  have t: "map (map fst) (fst (hipblas_init_template neg seed batch_count inc N rand_gen reset alt s))
      = replicate (nat batch_count) (vector_offsets N inc)"
    unfolding init_template_offsets[OF assms] by (rule rep)
  have t': "map (map fst)
        (fst (hipblas_init_template neg seed batch_count \<bar>inc\<bar> N rand_gen reset alt s))
      = replicate (nat batch_count) (vector_offsets N \<bar>inc\<bar>)"
    unfolding init_template_offsets[OF abs] by (rule rep)
  have b: "\<forall>p \<in> set (vector_offsets N inc). 0 \<le> p \<and> p \<le> (N - 1) * \<bar>inc\<bar>"
    using vector_offsets_bounds[OF assms(1)] by blast
  have f: "set (vector_offsets N inc) = set (vector_offsets N \<bar>inc\<bar>)"
    by (rule vector_offsets_abs)
  show ?thesis
    unfolding v v' a a' t t' using b f by simp
qed

theorem vector_init_footprint_witness:
  "map fst (fst (hipblas_init_vector counter_gen 3 (- 2) 0)) = [4, 2, 0]
   \<and> map fst (fst (hipblas_init_vector_alternating_sign uminus counter_gen 3 (- 2) 0)) = [4, 2, 0]
   \<and> map (map fst) (fst (hipblas_init_template uminus 0 2 (- 2) 3 counter_gen False True 0))
       = replicate 2 [4, 2, 0]
   \<and> set (map fst (fst (hipblas_init_vector counter_gen 3 (- 2) 0)))
       = set (map fst (fst (hipblas_init_vector counter_gen 3 2 0)))"
proof -
  have h: "(- 2 :: int) \<noteq> 0" "(3 - 1) * \<bar>- 2 :: int\<bar> < 2 ^ 63" by simp_all
  have o: "vector_offsets 3 (- 2) = [4, 2, 0]"
    by (simp add: vector_offsets_def upto_rec1)
  from vector_init_footprint [OF h, where rand_gen = counter_gen and s = 0 and neg = uminus
      and seed = 0 and batch_count = 2 and reset = False and alt = True]
  have "map fst (fst (hipblas_init_vector counter_gen 3 (- 2) 0)) = vector_offsets 3 (- 2)"
    and "map fst (fst (hipblas_init_vector_alternating_sign uminus counter_gen 3 (- 2) 0))
        = vector_offsets 3 (- 2)"
    and "map (map fst) (fst (hipblas_init_template uminus 0 2 (- 2) 3 counter_gen False True 0))
        = replicate (nat 2) (vector_offsets 3 (- 2))"
    and "set (map fst (fst (hipblas_init_vector counter_gen 3 (- 2) 0)))
        = set (map fst (fst (hipblas_init_vector counter_gen 3 \<bar>- 2\<bar> 0)))"
    by blast+
  then show ?thesis by (simp add: o)
qed

section \<open>Banded storage\<close>














text \<open>
  A 3 x 3 matrix with one super-diagonal in a banded buffer of three rows: the diagonal is
  row 1, the super-diagonal row 0, and row 2 and the first slot of row 0 are filled from
  the generator.
\<close>

lemma regular_to_banded_example:
  "map (fst (regular_to_banded nonzero_gen True (\<lambda>p. 10 + p) 3 3 3 1 (\<lambda>_. 0, 0))) [0..8]
   = [2, 10, 1, 13, 14, 3, 17, 18, 4]"
  by code_simp


section \<open>Hermitian, symmetric and triangular matrices\<close>

lemma hermitian_entry_frame:
  assumes "p \<noteq> A + (j + i * lda)" "p \<noteq> A + (i + j * lda)"
  shows "fst (hermitian_entry re cj gen uplo A lda i j st) p = fst st p"
  using assms
  by (cases st; cases "gen (snd st)") (simp add: hermitian_entry_def)

lemma hermitian_entry_diag:
  "\<exists>s'. fst (hermitian_entry re cj gen uplo A lda i i st) (A + (i + i * lda)) = re (fst (gen s'))"
  by (cases st; cases "gen (snd st)") (auto simp: hermitian_entry_def intro: exI[of _ "snd st"])

lemma hermitian_entry_pair:
  assumes "A + (j + i * lda) \<noteq> A + (i + j * lda)"
  shows "mirrored_pair cj gen uplo
           (fst (hermitian_entry re cj gen uplo A lda i j st) (A + (j + i * lda)))
           (fst (hermitian_entry re cj gen uplo A lda i j st) (A + (i + j * lda)))"
proof -
  obtain mem s where st: "st = (mem, s)" by (cases st)
  obtain v s' where g: "gen s = (v, s')" by (cases "gen s")
  have ex: "\<exists>t. v = fst (gen t)" "\<exists>t. v = fst (gen t) \<and> cj v = cj (fst (gen t))"
    by (rule exI[of _ s], simp add: g)+
  have ij: "i \<noteq> j" using assms by auto
  show ?thesis
    using assms ij ex
    by (simp add: st g hermitian_entry_def mirrored_pair_def)
qed

lemma mirror_apart:
  fixes A :: nat
  assumes "j < i" "i < lda"
  shows "A + (j + i * lda) \<noteq> A + (i + j * lda)"
  using assms cm_index_inj[of j lda i i j] by auto

lemma cells_apart:
  fixes A :: nat
  assumes "N \<le> lda" "j \<le> i" "i < N" "j' \<le> i'" "i' < N" "(i', j') \<noteq> (i, j)"
  shows "A + (j + i * lda) \<noteq> A + (j' + i' * lda)"
    and "A + (j + i * lda) \<noteq> A + (i' + j' * lda)"
    and "A + (i + j * lda) \<noteq> A + (j' + i' * lda)"
    and "A + (i + j * lda) \<noteq> A + (i' + j' * lda)"
  using assms cm_index_inj[of j lda j' i i'] cm_index_inj[of j lda i' i j']
    cm_index_inj[of i lda j' j i'] cm_index_inj[of i lda i' j j']
  by auto


lemma fill_hermitian_cells:
  "fill_hermitian re cj gen uplo A N lda st
   = fold (\<lambda>(i, j). hermitian_entry re cj gen uplo A lda i j) (ucells N) st"
  unfolding fill_hermitian_def ucells_def by (rule fold_nested)

lemma fill_hermitian_pair:
  assumes "N \<le> lda" "j < i" "i < N"
  shows "mirrored_pair cj gen uplo
           (fst (fill_hermitian re cj gen uplo A N lda st) (A + (j + i * lda)))
           (fst (fill_hermitian re cj gen uplo A N lda st) (A + (i + j * lda)))"
  unfolding fill_hermitian_cells
proof (rule fold_establish_region[where x = "(i, j)"
      and R = "{A + (j + i * lda), A + (i + j * lda)}"
      and Q = "\<lambda>m. mirrored_pair cj gen uplo (m (A + (j + i * lda))) (m (A + (i + j * lda)))"])
  show "(i, j) \<in> set (ucells N)" using assms by (simp add: set_ucells)
next
  fix st
  have "A + (j + i * lda) \<noteq> A + (i + j * lda)"
    using assms by (intro mirror_apart) simp_all
  then show "mirrored_pair cj gen uplo
      (fst ((case (i, j) of (i, j) \<Rightarrow> hermitian_entry re cj gen uplo A lda i j) st)
         (A + (j + i * lda)))
      (fst ((case (i, j) of (i, j) \<Rightarrow> hermitian_entry re cj gen uplo A lda i j) st)
         (A + (i + j * lda)))"
    using hermitian_entry_pair[of A j i lda cj gen uplo re st] by simp
next
  fix y :: "nat \<times> nat" and st p
  assume y: "y \<in> set (ucells N)" "y \<noteq> (i, j)"
    and p: "p \<in> {A + (j + i * lda), A + (i + j * lda)}"
  obtain i' j' where y': "y = (i', j')" by (cases y)
  have c: "j' \<le> i'" "i' < N" "(i', j') \<noteq> (i, j)" using y by (simp_all add: y' set_ucells)
  have "p \<noteq> A + (j' + i' * lda)" "p \<noteq> A + (i' + j' * lda)"
    using p cells_apart[where j = j and A = A, OF assms(1) _ assms(3) c] assms(2) by auto
  then show "fst ((case y of (i, j) \<Rightarrow> hermitian_entry re cj gen uplo A lda i j) st) p = fst st p"
    by (simp add: y' hermitian_entry_frame)
next
  fix m m'
  assume "\<And>p. p \<in> {A + (j + i * lda), A + (i + j * lda)} \<Longrightarrow> m' p = m p"
    and "mirrored_pair cj gen uplo (m (A + (j + i * lda))) (m (A + (i + j * lda)))"
  then show "mirrored_pair cj gen uplo (m' (A + (j + i * lda))) (m' (A + (i + j * lda)))"
    by simp
qed

lemma fill_hermitian_diag:
  assumes "N \<le> lda" "d < N"
  shows "\<exists>s. fst (fill_hermitian re cj gen uplo A N lda st) (A + (d + d * lda)) = re (fst (gen s))"
  unfolding fill_hermitian_cells
proof (rule fold_establish[where x = "(d, d)"])
  show "(d, d) \<in> set (ucells N)" using assms by (simp add: set_ucells)
next
  fix st
  show "\<exists>s. fst ((case (d, d) of (i, j) \<Rightarrow> hermitian_entry re cj gen uplo A lda i j) st)
      (A + (d + d * lda)) = re (fst (gen s))"
    using hermitian_entry_diag[of re cj gen uplo A lda d st] by simp
next
  fix y :: "nat \<times> nat" and st
  assume y: "y \<in> set (ucells N)" "y \<noteq> (d, d)"
  obtain i' j' where y': "y = (i', j')" by (cases y)
  have c: "j' \<le> i'" "i' < N" "(i', j') \<noteq> (d, d)" using y by (simp_all add: y' set_ucells)
  have "A + (d + d * lda) \<noteq> A + (j' + i' * lda)" "A + (d + d * lda) \<noteq> A + (i' + j' * lda)"
    using cells_apart[where A = A, OF assms(1) le_refl assms(2) c] by auto
  then show "fst ((case y of (i, j) \<Rightarrow> hermitian_entry re cj gen uplo A lda i j) st)
      (A + (d + d * lda)) = fst st (A + (d + d * lda))"
    by (simp add: y' hermitian_entry_frame)
qed

lemma fill_hermitian_frame:
  assumes "N \<le> lda" "p < A \<or> A + lda * N \<le> p"
  shows "fst (fill_hermitian re cj gen uplo A N lda st) p = fst st p"
  unfolding fill_hermitian_cells
proof (rule fold_frame)
  fix y :: "nat \<times> nat" and st
  assume y: "y \<in> set (ucells N)"
  obtain i' j' where y': "y = (i', j')" by (cases y)
  have c: "j' \<le> i'" "i' < N" using y by (simp_all add: y' set_ucells)
  have "j' + i' * lda < lda * N" "i' + j' * lda < lda * N"
    using c assms(1) by (intro cm_index_bound; simp)+
  then have "p \<noteq> A + (j' + i' * lda)" "p \<noteq> A + (i' + j' * lda)"
    using assms(2) by auto
  then show "fst ((case y of (i, j) \<Rightarrow> hermitian_entry re cj gen uplo A lda i j) st) p = fst st p"
    by (simp add: y' hermitian_entry_frame)
qed

lemma symmetric_entry_hermitian:
  "symmetric_entry gen uplo A lda i = hermitian_entry id id gen uplo A lda i"
  by (auto simp: symmetric_entry_def hermitian_entry_def fun_eq_iff split: prod.splits)

lemma fill_symmetric_hermitian:
  "fill_symmetric gen uplo A N lda = fill_hermitian id id gen uplo A N lda"
  by (simp only: fill_symmetric_def fill_hermitian_def symmetric_entry_hermitian)


lemma init_matrix_hermitian:
  "hipblas_init_matrix re cj ab hipblas_hermitian_matrix uplo gen bc hA M N lda
   = fold (\<lambda>b. fill_hermitian re cj gen uplo (hA b) N lda) [0..<bc]"
  by (simp add: hipblas_init_matrix_def Let_def)

lemma init_matrix_symmetric:
  "hipblas_init_matrix re cj ab hipblas_symmetric_matrix uplo gen bc hA M N lda
   = fold (\<lambda>b. fill_hermitian id id gen uplo (hA b) N lda) [0..<bc]"
  by (simp add: hipblas_init_matrix_def Let_def fill_symmetric_hermitian)

lemma fill_matrix_type_as_init_matrix:
  "mt \<noteq> hipblas_triangular_matrix \<Longrightarrow>
   hipblas_fill_matrix_type re cj ab mt uplo gen A_data M N lda stride bc
   = hipblas_init_matrix re cj ab mt uplo gen bc (\<lambda>b. A_data + b * stride) M N lda"
  by (cases mt) (simp_all add: hipblas_fill_matrix_type_def hipblas_init_matrix_def Let_def)

lemma batch_apart:
  fixes p :: nat
  assumes "\<forall>b' < bc. b' \<noteq> b \<longrightarrow> hA b' + lda * N \<le> hA b \<or> hA b + lda * N \<le> hA b'"
    and "b' < bc" "b' \<noteq> b" "hA b \<le> p" "p < hA b + lda * N"
  shows "p < hA b' \<or> hA b' + lda * N \<le> p"
  using assms by (metis leD leI le_trans less_le_trans)

lemma batches_hermitian_pair:
  assumes "N \<le> lda" "j < i" "i < N" "b < bc"
    and "\<forall>b' < bc. b' \<noteq> b \<longrightarrow> hA b' + lda * N \<le> hA b \<or> hA b + lda * N \<le> hA b'"
  shows "mirrored_pair cj gen uplo
      (fst (fold (\<lambda>b. fill_hermitian re cj gen uplo (hA b) N lda) [0..<bc] st)
         (hA b + (j + i * lda)))
      (fst (fold (\<lambda>b. fill_hermitian re cj gen uplo (hA b) N lda) [0..<bc] st)
         (hA b + (i + j * lda)))"
proof (rule fold_establish_region[where x = b
      and R = "{hA b + (j + i * lda), hA b + (i + j * lda)}"
      and Q = "\<lambda>m. mirrored_pair cj gen uplo (m (hA b + (j + i * lda))) (m (hA b + (i + j * lda)))"])
  show "b \<in> set [0..<bc]" using assms by simp
next
  fix st
  show "mirrored_pair cj gen uplo
      (fst (fill_hermitian re cj gen uplo (hA b) N lda st) (hA b + (j + i * lda)))
      (fst (fill_hermitian re cj gen uplo (hA b) N lda st) (hA b + (i + j * lda)))"
    by (rule fill_hermitian_pair[OF assms(1-3)])
next
  fix b' st p
  assume b': "b' \<in> set [0..<bc]" "b' \<noteq> b"
    and p: "p \<in> {hA b + (j + i * lda), hA b + (i + j * lda)}"
  have "j + i * lda < lda * N" "i + j * lda < lda * N"
    using assms(1-3) by (intro cm_index_bound; simp)+
  then have "hA b \<le> p" "p < hA b + lda * N" using p by auto
  then have "p < hA b' \<or> hA b' + lda * N \<le> p"
    using batch_apart[OF assms(5)] b' by simp
  then show "fst (fill_hermitian re cj gen uplo (hA b') N lda st) p = fst st p"
    by (rule fill_hermitian_frame[OF assms(1)])
next
  fix m m' :: "nat \<Rightarrow> 'a"
  assume "\<And>p. p \<in> {hA b + (j + i * lda), hA b + (i + j * lda)} \<Longrightarrow> m' p = m p"
    and "mirrored_pair cj gen uplo (m (hA b + (j + i * lda))) (m (hA b + (i + j * lda)))"
  then show "mirrored_pair cj gen uplo (m' (hA b + (j + i * lda))) (m' (hA b + (i + j * lda)))"
    by simp
qed

lemma batches_hermitian_diag:
  assumes "N \<le> lda" "d < N" "b < bc"
    and "\<forall>b' < bc. b' \<noteq> b \<longrightarrow> hA b' + lda * N \<le> hA b \<or> hA b + lda * N \<le> hA b'"
  shows "\<exists>s. fst (fold (\<lambda>b. fill_hermitian re cj gen uplo (hA b) N lda) [0..<bc] st)
      (hA b + (d + d * lda)) = re (fst (gen s))"
proof (rule fold_establish[where x = b])
  show "b \<in> set [0..<bc]" using assms by simp
next
  fix st
  show "\<exists>s. fst (fill_hermitian re cj gen uplo (hA b) N lda st) (hA b + (d + d * lda))
      = re (fst (gen s))"
    by (rule fill_hermitian_diag[OF assms(1,2)])
next
  fix b' st
  assume b': "b' \<in> set [0..<bc]" "b' \<noteq> b"
  have "d + d * lda < lda * N"
    using assms(1,2) by (intro cm_index_bound) simp_all
  then have "hA b + (d + d * lda) < hA b' \<or> hA b' + lda * N \<le> hA b + (d + d * lda)"
    using batch_apart[OF assms(4), of b' "hA b + (d + d * lda)"] b' by simp
  then show "fst (fill_hermitian re cj gen uplo (hA b') N lda st) (hA b + (d + d * lda))
      = fst st (hA b + (d + d * lda))"
    by (rule fill_hermitian_frame[OF assms(1)])
qed

text \<open>
  C3, as amended. Let the matrix be \<open>N x N\<close> with \<open>N \<le> lda\<close>, let \<open>j < i < N\<close> and
  \<open>d < N\<close>, and let instance \<open>b\<close> not overlap any other instance of the batch. After
  initialisation as a hermitian matrix, position \<open>(j, i)\<close> of the upper triangle and
  its mirror image \<open>(i, j)\<close> hold: for fill mode \<open>U\<close> a generated value and zero; for
  fill mode \<open>L\<close> zero and a generated value; for any other fill mode a generated value
  and its conjugate. The diagonal entry \<open>(d, d)\<close> is the real part of a generated
  value. After initialisation as a symmetric matrix the same holds with an
  unconjugated copy in place of the conjugate. The strided variant
  \<open>hipblas_fill_matrix_type\<close> is the same computation on the instances at
  \<open>A_data + b * stride\<close>.
\<close>

theorem hermitian_symmetric_fill:
  assumes "N \<le> lda" and "j < i" and "i < N" and "d < N" and "b < batch_count"
    and "\<forall>b' < batch_count. b' \<noteq> b \<longrightarrow> hA b' + lda * N \<le> hA b \<or> hA b + lda * N \<le> hA b'"
  shows
    "mirrored_pair hipblas_conjugate rand_gen uplo
       (entry (fst (hipblas_init_matrix hipblas_real hipblas_conjugate hipblas_abs
          hipblas_hermitian_matrix uplo rand_gen batch_count hA M N lda st)) (hA b) lda j i)
       (entry (fst (hipblas_init_matrix hipblas_real hipblas_conjugate hipblas_abs
          hipblas_hermitian_matrix uplo rand_gen batch_count hA M N lda st)) (hA b) lda i j)
     \<and> (\<exists>s. entry (fst (hipblas_init_matrix hipblas_real hipblas_conjugate hipblas_abs
          hipblas_hermitian_matrix uplo rand_gen batch_count hA M N lda st)) (hA b) lda d d
          = hipblas_real (fst (rand_gen s)))
     \<and> mirrored_pair id rand_gen uplo
       (entry (fst (hipblas_init_matrix hipblas_real hipblas_conjugate hipblas_abs
          hipblas_symmetric_matrix uplo rand_gen batch_count hA M N lda st)) (hA b) lda j i)
       (entry (fst (hipblas_init_matrix hipblas_real hipblas_conjugate hipblas_abs
          hipblas_symmetric_matrix uplo rand_gen batch_count hA M N lda st)) (hA b) lda i j)
     \<and> hipblas_fill_matrix_type hipblas_real hipblas_conjugate hipblas_abs
          hipblas_hermitian_matrix uplo rand_gen A_data M N lda stride batch_count
        = hipblas_init_matrix hipblas_real hipblas_conjugate hipblas_abs
          hipblas_hermitian_matrix uplo rand_gen batch_count (\<lambda>b. A_data + b * stride) M N lda
     \<and> hipblas_fill_matrix_type hipblas_real hipblas_conjugate hipblas_abs
          hipblas_symmetric_matrix uplo rand_gen A_data M N lda stride batch_count
        = hipblas_init_matrix hipblas_real hipblas_conjugate hipblas_abs
          hipblas_symmetric_matrix uplo rand_gen batch_count (\<lambda>b. A_data + b * stride) M N lda"
proof (intro conjI)
  show "mirrored_pair hipblas_conjugate rand_gen uplo
       (entry (fst (hipblas_init_matrix hipblas_real hipblas_conjugate hipblas_abs
          hipblas_hermitian_matrix uplo rand_gen batch_count hA M N lda st)) (hA b) lda j i)
       (entry (fst (hipblas_init_matrix hipblas_real hipblas_conjugate hipblas_abs
          hipblas_hermitian_matrix uplo rand_gen batch_count hA M N lda st)) (hA b) lda i j)"
    unfolding entry_def init_matrix_hermitian
    by (rule batches_hermitian_pair[OF assms(1-3,5,6)])
  show "\<exists>s. entry (fst (hipblas_init_matrix hipblas_real hipblas_conjugate hipblas_abs
          hipblas_hermitian_matrix uplo rand_gen batch_count hA M N lda st)) (hA b) lda d d
          = hipblas_real (fst (rand_gen s))"
    unfolding entry_def init_matrix_hermitian
    by (rule batches_hermitian_diag[OF assms(1,4,5,6)])
  show "mirrored_pair id rand_gen uplo
       (entry (fst (hipblas_init_matrix hipblas_real hipblas_conjugate hipblas_abs
          hipblas_symmetric_matrix uplo rand_gen batch_count hA M N lda st)) (hA b) lda j i)
       (entry (fst (hipblas_init_matrix hipblas_real hipblas_conjugate hipblas_abs
          hipblas_symmetric_matrix uplo rand_gen batch_count hA M N lda st)) (hA b) lda i j)"
    unfolding entry_def init_matrix_symmetric
    by (rule batches_hermitian_pair[OF assms(1-3,5,6)])
  show "hipblas_fill_matrix_type hipblas_real hipblas_conjugate hipblas_abs
          hipblas_hermitian_matrix uplo rand_gen A_data M N lda stride batch_count
        = hipblas_init_matrix hipblas_real hipblas_conjugate hipblas_abs
          hipblas_hermitian_matrix uplo rand_gen batch_count (\<lambda>b. A_data + b * stride) M N lda"
    by (rule fill_matrix_type_as_init_matrix) simp
  show "hipblas_fill_matrix_type hipblas_real hipblas_conjugate hipblas_abs
          hipblas_symmetric_matrix uplo rand_gen A_data M N lda stride batch_count
        = hipblas_init_matrix hipblas_real hipblas_conjugate hipblas_abs
          hipblas_symmetric_matrix uplo rand_gen batch_count (\<lambda>b. A_data + b * stride) M N lda"
    by (rule fill_matrix_type_as_init_matrix) simp
qed

theorem hermitian_symmetric_fill_witness:
  "mirrored_pair cnj complex_gen CHR ''U''
     (entry (fst (hipblas_init_matrix complex_real cnj complex_abs
        hipblas_hermitian_matrix CHR ''U'' complex_gen 1 (\<lambda>b. 0) 2 2 2 (\<lambda>_. 0, 0))) 0 2 0 1)
     (entry (fst (hipblas_init_matrix complex_real cnj complex_abs
        hipblas_hermitian_matrix CHR ''U'' complex_gen 1 (\<lambda>b. 0) 2 2 2 (\<lambda>_. 0, 0))) 0 2 1 0)
   \<and> (\<exists>s. entry (fst (hipblas_init_matrix complex_real cnj complex_abs
        hipblas_hermitian_matrix CHR ''U'' complex_gen 1 (\<lambda>b. 0) 2 2 2 (\<lambda>_. 0, 0))) 0 2 0 0
        = complex_real (fst (complex_gen s)))"
proof -
  have apart: "\<forall>b' < (1::nat). b' \<noteq> 0 \<longrightarrow>
      (\<lambda>b. 0::nat) b' + 2 * 2 \<le> (\<lambda>b. 0) (0::nat) \<or> (\<lambda>b. 0) (0::nat) + 2 * 2 \<le> (\<lambda>b. 0::nat) b'"
    by simp
  have sizes: "(2::nat) \<le> 2" "(0::nat) < 1" "(1::nat) < 2" "(0::nat) < 2" "(0::nat) < 1"
    by simp_all
  note h = hermitian_symmetric_fill[where N = 2 and lda = 2 and j = 0 and i = 1 and d = 0
      and b = 0 and batch_count = 1 and hA = "\<lambda>b. 0" and hipblas_real = complex_real
      and hipblas_conjugate = cnj and hipblas_abs = complex_abs and uplo = "CHR ''U''"
      and rand_gen = complex_gen and M = 2 and st = "(\<lambda>_. 0, 0)" and A_data = 0 and stride = 0, OF sizes apart]
  show ?thesis
    by (rule conjI[OF h[THEN conjunct1] h[THEN conjunct2, THEN conjunct1]])
qed

text \<open>
  With fill mode \<open>U\<close> the hermitian branch leaves \<open>2 + 3 i\<close> in row 0, column 1 of a
  \<open>2 x 2\<close> matrix and zero, not the conjugate \<open>2 - 3 i\<close>, in row 1, column 0; the
  symmetric branch likewise leaves zero, not a copy, in row 1, column 0.
\<close>

theorem hermitian_upper_mirror_is_zero:
  "entry (fst (hipblas_init_matrix complex_real cnj complex_abs
      hipblas_hermitian_matrix CHR ''U'' complex_gen 1 (\<lambda>b. 0) 2 2 2 (\<lambda>_. 0, 0))) 0 2 0 1
    = Complex 2 3
   \<and> entry (fst (hipblas_init_matrix complex_real cnj complex_abs
      hipblas_hermitian_matrix CHR ''U'' complex_gen 1 (\<lambda>b. 0) 2 2 2 (\<lambda>_. 0, 0))) 0 2 1 0
    = 0
   \<and> entry (fst (hipblas_init_matrix complex_real cnj complex_abs
      hipblas_hermitian_matrix CHR ''U'' complex_gen 1 (\<lambda>b. 0) 2 2 2 (\<lambda>_. 0, 0))) 0 2 1 0
    \<noteq> cnj (entry (fst (hipblas_init_matrix complex_real cnj complex_abs
      hipblas_hermitian_matrix CHR ''U'' complex_gen 1 (\<lambda>b. 0) 2 2 2 (\<lambda>_. 0, 0))) 0 2 0 1)
   \<and> entry (fst (hipblas_init_matrix complex_real cnj complex_abs
      hipblas_symmetric_matrix CHR ''U'' complex_gen 1 (\<lambda>b. 0) 2 2 2 (\<lambda>_. 0, 0))) 0 2 0 1
    = Complex 2 3
   \<and> entry (fst (hipblas_init_matrix complex_real cnj complex_abs
      hipblas_symmetric_matrix CHR ''U'' complex_gen 1 (\<lambda>b. 0) 2 2 2 (\<lambda>_. 0, 0))) 0 2 1 0
    = 0"
proof -
  have u: "entry (fst (hipblas_init_matrix complex_real cnj complex_abs
      hipblas_hermitian_matrix CHR ''U'' complex_gen 1 (\<lambda>b. 0) 2 2 2 (\<lambda>_. 0, 0))) 0 2 0 1
    = Complex 2 3"
    by code_simp
  have l: "entry (fst (hipblas_init_matrix complex_real cnj complex_abs
      hipblas_hermitian_matrix CHR ''U'' complex_gen 1 (\<lambda>b. 0) 2 2 2 (\<lambda>_. 0, 0))) 0 2 1 0
    = 0"
    by code_simp
  have su: "entry (fst (hipblas_init_matrix complex_real cnj complex_abs
      hipblas_symmetric_matrix CHR ''U'' complex_gen 1 (\<lambda>b. 0) 2 2 2 (\<lambda>_. 0, 0))) 0 2 0 1
    = Complex 2 3"
    by code_simp
  have sl: "entry (fst (hipblas_init_matrix complex_real cnj complex_abs
      hipblas_symmetric_matrix CHR ''U'' complex_gen 1 (\<lambda>b. 0) 2 2 2 (\<lambda>_. 0, 0))) 0 2 1 0
    = 0"
    by code_simp
  have ne: "(0::complex) \<noteq> cnj (Complex 2 3)"
    by (simp add: complex_eq_iff)
  show ?thesis
    unfolding u l su sl using ne by simp
qed

subsection \<open>Diagonally dominant triangular matrices\<close>




































lemma diagonally_dominant_example:
  "map (\<lambda>(r, c). entry (fst (hipblas_init_matrix id id abs
        hipblas_diagonally_dominant_triangular_matrix CHR ''U'' rat_gen 1 (\<lambda>b. 0) 3 3 3
        (\<lambda>_. 0, 0))) 0 3 r c)
     [(0, 0), (0, 1), (0, 2), (1, 0), (1, 1), (1, 2), (2, 0), (2, 1), (2, 2)]
   = [303 / 50, 2, 4, 0, 707 / 100, 5, 0, 0, 909 / 100]"
  by code_simp


end
